theory Spec2Isabelle
  imports Main "HOL-Library.Word" "HOL-Library.DAList"
begin

section \<open>Values, rows and outcomes\<close>

text \<open>
  A \<open>parser.Datum\<close> is a typed SQL value; \<open>parser.DNull\<close> is the one null marker, which
  the code recognises by comparison (\<open>leftVal == parser.DNull\<close>). The other values are
  kept abstract (\<open>'v\<close>). A \<open>parser.DTuple\<close> is a slice of datums.
\<close>

datatype 'v Datum = DNull | DValue 'v

type_synonym 'v DTuple = "'v Datum list"

type_synonym byte = "8 word"

text \<open>
  Go panics that the code of \<open>join_predicate.go\<close> can raise: the run-time errors of
  indexing, slicing, \<open>make\<close> and calling a nil function value, and the three explicit
  \<open>panic(...)\<close> calls of the file.
\<close>

datatype panic =
    IndexOutOfRange
  | SliceBoundsOutOfRange
  | MakesliceCapOutOfRange
  | NilFunctionCall
  | OnEncodeUnimplemented  \<comment> \<open>\<open>panic("ON predicate extraction unimplemented")\<close>\<close>
  | InvalidSide  \<comment> \<open>\<open>panic("invalid side provided, only leftSide or rightSide applicable")\<close>\<close>
  | ColumnsLengthMismatch nat nat  \<comment> \<open>\<open>panic(fmt.Errorf("left columns' length ... doesn't match ..."))\<close>\<close>

text \<open>
  What a call does: it returns its values with a nil error (\<open>Return\<close>), returns a
  non-nil error (\<open>Error\<close>), or panics (\<open>Panic\<close>).
\<close>

datatype ('e, 'a) outcome = Return 'a | Error 'e | Panic panic

text \<open>Go's \<open>xs[i]\<close> on a slice, with an \<open>int\<close> index: \<open>None\<close> is the index panic.\<close>

definition at :: "'a list \<Rightarrow> int \<Rightarrow> 'a option" where
  "at xs i = (if 0 \<le> i \<and> i < int (length xs) then Some (xs ! nat i) else None)"

text \<open>Go's \<open>xs[i] = v\<close>: \<open>None\<close> is the index panic.\<close>

definition put :: "'a list \<Rightarrow> int \<Rightarrow> 'a \<Rightarrow> 'a list option" where
  "put xs i v = (if 0 \<le> i \<and> i < int (length xs) then Some (xs[nat i := v]) else None)"

text \<open>Go's builtin \<open>copy(dst, src)\<close>: the first \<open>min(len(dst), len(src))\<close> elements.\<close>

definition copy :: "'a list \<Rightarrow> 'a list \<Rightarrow> 'a list" where
  "copy dst src = take (length dst) src @ drop (length src) dst"

definition leftSide :: int where
  "leftSide = 0"

definition rightSide :: int where
  "rightSide = 1"

section \<open>CROSS JOIN and ON: concatenation\<close>

text \<open>
  \<open>prepareRowConcat\<close> writes into \<open>result\<close> in place; the model returns the buffer after
  the call. \<open>result[len(leftRow):]\<close> panics when \<open>len(leftRow) > len(result)\<close>.
\<close>

definition prepareRowConcat ::
  "'v DTuple \<Rightarrow> 'v DTuple \<Rightarrow> 'v DTuple \<Rightarrow> ('e, 'v DTuple) outcome" where
  "prepareRowConcat result leftRow rightRow =
     (let result1 = copy result leftRow in
      if length leftRow > length result1 then Panic SliceBoundsOutOfRange
      else Return (take (length leftRow) result1 @ copy (drop (length leftRow) result1) rightRow))"

text \<open>
  The methods of \<open>joinPredicate\<close> that receive the \<open>result\<close> buffer return it as the
  second component (\<open>eval\<close>) or as the returned value (\<open>prepareRow\<close>), so that what a
  method writes into the caller's buffer is part of its model.
\<close>

definition crossPredicate_eval ::
  "'v DTuple \<Rightarrow> 'v DTuple \<Rightarrow> 'v DTuple \<Rightarrow> ('e, bool) outcome \<times> 'v DTuple" where
  "crossPredicate_eval result leftRow rightRow = (Return True, result)"

definition crossPredicate_prepareRow ::
  "'v DTuple \<Rightarrow> 'v DTuple \<Rightarrow> 'v DTuple \<Rightarrow> ('e, 'v DTuple) outcome" where
  "crossPredicate_prepareRow result leftRow rightRow = prepareRowConcat result leftRow rightRow"

text \<open>The nil slice that \<open>crossPredicate.encode\<close> returns is the empty byte list.\<close>

definition crossPredicate_encode ::
  "byte list \<Rightarrow> 'v DTuple \<Rightarrow> int \<Rightarrow> ('e, byte list \<times> bool) outcome" where
  "crossPredicate_encode b row side = Return ([], False)"

text \<open>
  Of \<open>onPredicate\<close> the model keeps the two fields the row operations use:
  \<open>curRow\<close>, and \<open>filter_fn\<close> (the field \<open>filter\<close>) as the function that
  \<open>sqlbase.RunFilter(p.filter, &p.p.evalCtx)\<close> computes from the current row (the
  expression reads its columns through \<open>IndexedVarEval\<close>, that is from \<open>p.curRow\<close>).
\<close>

record ('v, 'e) onPredicate =
  filter_fn :: "'v DTuple \<Rightarrow> 'e + bool"
  curRow :: "'v DTuple"

definition onPredicate_encode ::
  "('v, 'e) onPredicate \<Rightarrow> byte list \<Rightarrow> 'v DTuple \<Rightarrow> int \<Rightarrow> ('e, byte list \<times> bool) outcome" where
  "onPredicate_encode p b row side = Panic OnEncodeUnimplemented"

text \<open>
  \<open>onPredicate.eval\<close> sets \<open>p.curRow = result\<close> (the same slice), fills it and runs the
  filter; the model returns the outcome, the buffer and the updated predicate.
\<close>

definition onPredicate_eval ::
  "('v, 'e) onPredicate \<Rightarrow> 'v DTuple \<Rightarrow> 'v DTuple \<Rightarrow> 'v DTuple
     \<Rightarrow> ('e, bool) outcome \<times> 'v DTuple \<times> ('v, 'e) onPredicate" where
  "onPredicate_eval p result leftRow rightRow =
     (case prepareRowConcat result leftRow rightRow :: ('e, 'v DTuple) outcome of
        Panic x \<Rightarrow> (Panic x, result, p\<lparr>curRow := result\<rparr>)
      | Error e \<Rightarrow> (Error e, result, p\<lparr>curRow := result\<rparr>)
      | Return result' \<Rightarrow>
          (case filter_fn p result' of
             Inl err \<Rightarrow> (Error err, result', p\<lparr>curRow := result'\<rparr>)
           | Inr res \<Rightarrow> (Return res, result', p\<lparr>curRow := result'\<rparr>)))"

definition onPredicate_prepareRow ::
  "('v, 'e) onPredicate \<Rightarrow> 'v DTuple \<Rightarrow> 'v DTuple \<Rightarrow> 'v DTuple \<Rightarrow> ('e, 'v DTuple) outcome" where
  "onPredicate_prepareRow p result leftRow rightRow = prepareRowConcat result leftRow rightRow"

section \<open>USING: the equality predicate\<close>

text \<open>
  A comparison function \<open>func(*EvalContext, Datum, Datum) (DBool, error)\<close> returns its
  error (\<open>Inl\<close>) or its boolean (\<open>Inr\<close>); a slot of \<open>usingCmp\<close> that was never assigned
  holds the nil function (\<open>None\<close>).
\<close>

type_synonym ('c, 'v, 'e) cmpFn = "'c \<Rightarrow> 'v Datum \<Rightarrow> 'v Datum \<Rightarrow> 'e + bool"

record ('c, 'v, 'e) equalityPredicate =
  leftColNames :: "string list"
  rightColNames :: "string list"
  usingCmp :: "('c, 'v, 'e) cmpFn option list"
  evalCtx :: 'c
  leftUsingIndices :: "int list"
  rightUsingIndices :: "int list"
  leftRestIndices :: "int list"
  rightRestIndices :: "int list"

text \<open>Go's \<open>row[indices[i]]\<close>: \<open>None\<close> when either indexing panics.\<close>

definition atAt :: "'a list \<Rightarrow> int list \<Rightarrow> int \<Rightarrow> 'a option" where
  "atAt row indices i = (case at indices i of None \<Rightarrow> None | Some j \<Rightarrow> at row j)"

text \<open>
  The body of the loop \<open>for i := range p.leftColNames\<close> of \<open>equalityPredicate.eval\<close>,
  over the indices still to visit. \<open>break\<close> with \<open>eq = false\<close> is \<open>Return False\<close>.
\<close>

fun eval_loop ::
  "('c, 'v, 'e) equalityPredicate \<Rightarrow> 'v DTuple \<Rightarrow> 'v DTuple \<Rightarrow> nat list \<Rightarrow> ('e, bool) outcome" where
  "eval_loop p leftRow rightRow [] = Return True"
| "eval_loop p leftRow rightRow (i # rest) =
     (case atAt leftRow (leftUsingIndices p) (int i) of None \<Rightarrow> Panic IndexOutOfRange
      | Some leftVal \<Rightarrow>
     (case atAt rightRow (rightUsingIndices p) (int i) of None \<Rightarrow> Panic IndexOutOfRange
      | Some rightVal \<Rightarrow>
        if leftVal = DNull \<or> rightVal = DNull then Return False
        else
          (case at (usingCmp p) (int i) of None \<Rightarrow> Panic IndexOutOfRange
           | Some None \<Rightarrow> Panic NilFunctionCall
           | Some (Some cmp) \<Rightarrow>
               (case cmp (evalCtx p) leftVal rightVal of
                  Inl err \<Rightarrow> Error err
                | Inr res \<Rightarrow>
                    if res \<noteq> True then Return False
                    else eval_loop p leftRow rightRow rest))))"

definition equalityPredicate_eval ::
  "('c, 'v, 'e) equalityPredicate \<Rightarrow> 'v DTuple \<Rightarrow> 'v DTuple \<Rightarrow> 'v DTuple
     \<Rightarrow> ('e, bool) outcome \<times> 'v DTuple" where
  "equalityPredicate_eval p result leftRow rightRow =
     (eval_loop p leftRow rightRow [0 ..< length (leftColNames p)], result)"

text \<open>
  \<open>equalityPredicate.prepareRow\<close>: the first loop, \<open>for k, j := range p.leftUsingIndices\<close>,
  over the pairs \<open>(k, j)\<close> still to visit, with the buffer and the write position \<open>d\<close>.
\<close>

fun prepareRow_using ::
  "('c, 'v, 'e) equalityPredicate \<Rightarrow> 'v DTuple \<Rightarrow> 'v DTuple \<Rightarrow> 'v DTuple \<Rightarrow> int
     \<Rightarrow> (nat \<times> int) list \<Rightarrow> ('e, 'v DTuple \<times> int) outcome" where
  "prepareRow_using p result leftRow rightRow d [] = Return (result, d)"
| "prepareRow_using p result leftRow rightRow d ((k, j) # rest) =
     (case at leftRow j of None \<Rightarrow> Panic IndexOutOfRange
      | Some leftVal \<Rightarrow>
          if leftVal \<noteq> DNull then
            (case put result d leftVal of None \<Rightarrow> Panic IndexOutOfRange
             | Some result' \<Rightarrow> prepareRow_using p result' leftRow rightRow (d + 1) rest)
          else
            (case atAt rightRow (rightUsingIndices p) (int k) of None \<Rightarrow> Panic IndexOutOfRange
             | Some rightVal \<Rightarrow>
                 (case put result d rightVal of None \<Rightarrow> Panic IndexOutOfRange
                  | Some result' \<Rightarrow> prepareRow_using p result' leftRow rightRow (d + 1) rest)))"

text \<open>The two loops over \<open>p.leftRestIndices\<close> and \<open>p.rightRestIndices\<close>.\<close>

fun prepareRow_rest ::
  "'v DTuple \<Rightarrow> 'v DTuple \<Rightarrow> int \<Rightarrow> int list \<Rightarrow> ('e, 'v DTuple \<times> int) outcome" where
  "prepareRow_rest result row d [] = Return (result, d)"
| "prepareRow_rest result row d (j # rest) =
     (case at row j of None \<Rightarrow> Panic IndexOutOfRange
      | Some v \<Rightarrow>
          (case put result d v of None \<Rightarrow> Panic IndexOutOfRange
           | Some result' \<Rightarrow> prepareRow_rest result' row (d + 1) rest))"

definition equalityPredicate_prepareRow ::
  "('c, 'v, 'e) equalityPredicate \<Rightarrow> 'v DTuple \<Rightarrow> 'v DTuple \<Rightarrow> 'v DTuple
     \<Rightarrow> ('e, 'v DTuple) outcome" where
  "equalityPredicate_prepareRow p result leftRow rightRow =
     (case prepareRow_using p result leftRow rightRow 0 (enumerate 0 (leftUsingIndices p)) of
        Panic x \<Rightarrow> Panic x
      | Error e \<Rightarrow> Error e
      | Return (result1, d1) \<Rightarrow>
          (case prepareRow_rest result1 leftRow d1 (leftRestIndices p) of
             Panic x \<Rightarrow> Panic x
           | Error e \<Rightarrow> Error e
           | Return (result2, d2) \<Rightarrow>
               (case prepareRow_rest result2 rightRow d2 (rightRestIndices p) of
                  Panic x \<Rightarrow> Panic x
                | Error e \<Rightarrow> Error e
                | Return (result3, d3) \<Rightarrow> Return result3)))"

text \<open>
  \<open>equalityPredicate.encode\<close>. \<open>sqlbase.EncodeDatum\<close> is a parameter: it takes the
  buffer and a datum and returns the new buffer or an error. The loop carries the
  buffer \<open>b\<close> and \<open>containsNull\<close>; on an error the method returns \<open>nil, false, err\<close>.
\<close>

fun encode_loop ::
  "(byte list \<Rightarrow> 'v Datum \<Rightarrow> 'e + byte list) \<Rightarrow> byte list \<Rightarrow> 'v DTuple \<Rightarrow> bool \<Rightarrow> int list
     \<Rightarrow> ('e, byte list \<times> bool) outcome" where
  "encode_loop EncodeDatum b row containsNull [] = Return (b, containsNull)"
| "encode_loop EncodeDatum b row containsNull (colIdx # cols) =
     (case at row colIdx of None \<Rightarrow> Panic IndexOutOfRange
      | Some d \<Rightarrow>
          (case EncodeDatum b d of
             Inl err \<Rightarrow> Error err
           | Inr b' \<Rightarrow>
               encode_loop EncodeDatum b' row (if d = DNull then True else containsNull) cols))"

definition equalityPredicate_encode ::
  "(byte list \<Rightarrow> 'v Datum \<Rightarrow> 'e + byte list) \<Rightarrow> ('c, 'v, 'e) equalityPredicate
     \<Rightarrow> byte list \<Rightarrow> 'v DTuple \<Rightarrow> int \<Rightarrow> ('e, byte list \<times> bool) outcome" where
  "equalityPredicate_encode EncodeDatum p b row side =
     (if side = rightSide then encode_loop EncodeDatum b row False (rightUsingIndices p)
      else if side = leftSide then encode_loop EncodeDatum b row False (leftUsingIndices p)
      else Panic InvalidSide)"

text \<open>
  Modelled from the spec: \<open>sqlbase.EncodeDatum\<close> is not part of this file. The spec's
  value encoder "appends the byte encoding of one typed value to a growable buffer;
  fails on unsupported/unencodable types": \<open>encoding\<close> gives the bytes of one value
  or the failure.
\<close>

definition appendingEncoder ::
  "('v Datum \<Rightarrow> 'e + byte list) \<Rightarrow> byte list \<Rightarrow> 'v Datum \<Rightarrow> 'e + byte list" where
  "appendingEncoder encoding b d =
     (case encoding d of Inl err \<Rightarrow> Inl err | Inr bs \<Rightarrow> Inr (b @ bs))"

section \<open>Construction of the equality predicate\<close>

text \<open>
  A \<open>ResultColumn\<close> has a name, a type and the \<open>hidden\<close> flag; the types
  (\<open>parser.Type\<close>) are kept abstract. A \<open>dataSourceInfo\<close> has the columns and the map
  \<open>sourceAliases\<close> from an alias to the list of column positions it denotes. A Go map
  has one entry per key and is iterated in some order: an association list with
  distinct keys.
\<close>

record 'ty ResultColumn =
  Name :: string
  Typ :: 'ty
  hidden :: bool

record ('ty, 'a) dataSourceInfo =
  sourceColumns :: "'ty ResultColumn list"
  sourceAliases :: "('a, int list) alist"

text \<open>
  What this file uses and does not declare, as parameters: \<open>parser.Name.Normalize\<close>,
  \<open>parser.ReNormalizeName\<close>, \<open>parser.FindEqualComparisonFunction\<close> (\<open>None\<close> when it
  reports \<open>found = false\<close>) and the constant \<open>invalidColIdx\<close>.
\<close>

record ('ty, 'c, 'v, 'e) externals =
  Normalize :: "string \<Rightarrow> string"
  ReNormalizeName :: "string \<Rightarrow> string"
  FindEqualComparisonFunction :: "'ty \<Rightarrow> 'ty \<Rightarrow> ('c, 'v, 'e) cmpFn option"
  invalidColIdx :: int

text \<open>The three errors that the construction returns with \<open>fmt.Errorf\<close>.\<close>

datatype 'ty usingError =
    ColumnDoesNotExist string string
      \<comment> \<open>"column ... specified in USING clause does not exist in left/right table"\<close>
  | ColumnMoreThanOnce string
      \<comment> \<open>"column ... appears more than once in USING clause"\<close>
  | TypesCannotBeMatched 'ty string 'ty string
      \<comment> \<open>"JOIN/USING types ... for left column ... and ... for right column ... cannot be matched"\<close>

text \<open>
  The loop of \<open>pickUsingColumn\<close>, \<open>for j, col := range cols\<close>, from position \<open>j\<close>
  on, with the current \<open>idx\<close>. There is no \<open>break\<close>: the last visible match wins.
\<close>

fun pickUsingColumn_loop ::
  "(string \<Rightarrow> string) \<Rightarrow> string \<Rightarrow> 'ty ResultColumn list \<Rightarrow> int \<Rightarrow> int \<Rightarrow> int" where
  "pickUsingColumn_loop rn colName [] j idx = idx"
| "pickUsingColumn_loop rn colName (col # cols) j idx =
     (if hidden col then pickUsingColumn_loop rn colName cols (j + 1) idx
      else if rn (Name col) = colName then pickUsingColumn_loop rn colName cols (j + 1) j
      else pickUsingColumn_loop rn colName cols (j + 1) idx)"

definition pickUsingColumn ::
  "('ty, 'c, 'v, 'e) externals \<Rightarrow> 'ty ResultColumn list \<Rightarrow> string \<Rightarrow> string
     \<Rightarrow> ('ty usingError, int \<times> 'ty) outcome" where
  "pickUsingColumn ext cols colName context =
     (let idx = pickUsingColumn_loop (ReNormalizeName ext) colName cols 0 (invalidColIdx ext) in
      if idx = invalidColIdx ext then Error (ColumnDoesNotExist colName context)
      else (case at cols idx of None \<Rightarrow> Panic IndexOutOfRange
            | Some col \<Rightarrow> Return (idx, Typ col)))"

text \<open>
  The local variables of \<open>makeEqualityPredicate\<close> that its loops update
  (\<open>leftUsingIdx\<close> and \<open>rightUsingIdx\<close> are the locals \<open>leftUsingIndices\<close> and
  \<open>rightUsingIndices\<close>).
\<close>

record ('ty, 'c, 'v, 'e) locals =
  cmpOps :: "('c, 'v, 'e) cmpFn option list"
  leftUsingIdx :: "int list"
  rightUsingIdx :: "int list"
  usedLeft :: "int list"
  usedRight :: "int list"
  columns :: "'ty ResultColumn list"

text \<open>
  The first loop, \<open>for i := range leftColNames\<close>, over the indices still to visit
  (\<open>leftNames\<close> and \<open>rightNames\<close> are the parameters \<open>leftColNames\<close> and
  \<open>rightColNames\<close>).
\<close>

fun using_loop ::
  "('ty, 'c, 'v, 'e) externals \<Rightarrow> 'ty ResultColumn list \<Rightarrow> 'ty ResultColumn list
     \<Rightarrow> string list \<Rightarrow> string list \<Rightarrow> nat list \<Rightarrow> ('ty, 'c, 'v, 'e) locals
     \<Rightarrow> ('ty usingError, ('ty, 'c, 'v, 'e) locals) outcome" where
  "using_loop ext leftCols rightCols leftNames rightNames [] st = Return st"
| "using_loop ext leftCols rightCols leftNames rightNames (i # rest) st =
     (case at leftNames (int i) of None \<Rightarrow> Panic IndexOutOfRange | Some leftName \<Rightarrow>
     (case at rightNames (int i) of None \<Rightarrow> Panic IndexOutOfRange | Some rightName \<Rightarrow>
     (case pickUsingColumn ext leftCols (Normalize ext leftName) ''left'' of
        Panic x \<Rightarrow> Panic x
      | Error err \<Rightarrow> Error err
      | Return (leftIdx, leftType) \<Rightarrow>
     (case put (usedLeft st) leftIdx (int i) of None \<Rightarrow> Panic IndexOutOfRange | Some usedLeft' \<Rightarrow>
     (case pickUsingColumn ext rightCols (Normalize ext rightName) ''right'' of
        Panic x \<Rightarrow> Panic x
      | Error err \<Rightarrow> Error err
      | Return (rightIdx, rightType) \<Rightarrow>
     (case put (usedRight st) rightIdx (int i) of None \<Rightarrow> Panic IndexOutOfRange | Some usedRight' \<Rightarrow>
     (case put (leftUsingIdx st) (int i) leftIdx of None \<Rightarrow> Panic IndexOutOfRange | Some leftUsingIdx' \<Rightarrow>
     (case put (rightUsingIdx st) (int i) rightIdx of None \<Rightarrow> Panic IndexOutOfRange | Some rightUsingIdx' \<Rightarrow>
     (case FindEqualComparisonFunction ext leftType rightType of
        None \<Rightarrow> Error (TypesCannotBeMatched leftType (Normalize ext leftName)
                                rightType (Normalize ext rightName))
      | Some fn \<Rightarrow>
     (case put (cmpOps st) (int i) (Some fn) of None \<Rightarrow> Panic IndexOutOfRange | Some cmpOps' \<Rightarrow>
     (case at leftCols leftIdx of None \<Rightarrow> Panic IndexOutOfRange | Some col \<Rightarrow>
        using_loop ext leftCols rightCols leftNames rightNames rest
          \<lparr>cmpOps = cmpOps', leftUsingIdx = leftUsingIdx', rightUsingIdx = rightUsingIdx',
           usedLeft = usedLeft', usedRight = usedRight',
           columns = columns st @ [col]\<rparr>)))))))))))"

text \<open>
  The loops \<open>for i := range left.sourceColumns\<close> and \<open>for i := range right.sourceColumns\<close>
  that collect the columns not used by USING: the state is the rest indices, the
  \<open>used\<close> array and \<open>columns\<close>. In the source the rest indices are appended before
  \<open>used[i]\<close> is set and the column is appended last.
\<close>

fun rest_loop ::
  "int \<Rightarrow> 'ty ResultColumn list \<Rightarrow> nat list
     \<Rightarrow> int list \<times> int list \<times> 'ty ResultColumn list
     \<Rightarrow> ('ty usingError, int list \<times> int list \<times> 'ty ResultColumn list) outcome" where
  "rest_loop invalid cols [] st = Return st"
| "rest_loop invalid cols (i # rest) (restIndices, used, columns') =
     (case at used (int i) of None \<Rightarrow> Panic IndexOutOfRange | Some u \<Rightarrow>
        if u = invalid then
          (case put used (int i) (int (length columns')) of None \<Rightarrow> Panic IndexOutOfRange
           | Some used' \<Rightarrow>
          (case at cols (int i) of None \<Rightarrow> Panic IndexOutOfRange | Some col \<Rightarrow>
             rest_loop invalid cols rest (restIndices @ [int i], used', columns' @ [col])))
        else rest_loop invalid cols rest (restIndices, used, columns'))"

text \<open>
  The inner loop of the alias remapping, \<open>newRange[i] = used[colIdx]\<close>: \<open>None\<close> is the
  index panic.
\<close>

fun remap_range :: "int list \<Rightarrow> int list \<Rightarrow> int list option" where
  "remap_range used [] = Some []"
| "remap_range used (colIdx # colRange) =
     (case at used colIdx of None \<Rightarrow> None
      | Some v \<Rightarrow> (case remap_range used colRange of None \<Rightarrow> None
                  | Some newRange \<Rightarrow> Some (v # newRange)))"

text \<open>The loop \<open>for alias, colRange := range side.sourceAliases\<close> with \<open>aliases[alias] = newRange\<close>.\<close>

fun remap_aliases ::
  "int list \<Rightarrow> ('a \<times> int list) list \<Rightarrow> ('a, int list) alist \<Rightarrow> ('a, int list) alist option" where
  "remap_aliases used [] aliases = Some aliases"
| "remap_aliases used ((alias, colRange) # rest) aliases =
     (case remap_range used colRange of None \<Rightarrow> None
      | Some newRange \<Rightarrow> remap_aliases used rest (DAList.update alias newRange aliases))"

text \<open>
  The body of \<open>makeEqualityPredicate\<close>. Beside the two values the function returns
  (the predicate and the merged \<open>dataSourceInfo\<close>), \<open>makeEqualityPredicate_run\<close> gives
  the final \<open>usedLeft\<close> and \<open>usedRight\<close>: the arrays that map every original column
  position to its position in the merged schema, which the function uses to remap the
  aliases and then drops. Of the planner \<open>p\<close> only \<open>p.evalCtx\<close> is used (\<open>ctx\<close>).
  \<open>make\<close> panics on a negative capacity.
\<close>

definition makeEqualityPredicate_run ::
  "('ty, 'c, 'v, 'e) externals \<Rightarrow> 'c \<Rightarrow> ('ty, 'a) dataSourceInfo \<Rightarrow> ('ty, 'a) dataSourceInfo
     \<Rightarrow> string list \<Rightarrow> string list
     \<Rightarrow> ('ty usingError,
         ('c, 'v, 'e) equalityPredicate \<times> ('ty, 'a) dataSourceInfo \<times> int list \<times> int list) outcome" where
  "makeEqualityPredicate_run ext ctx left right leftNames rightNames =
     (if length leftNames \<noteq> length rightNames
      then Panic (ColumnsLengthMismatch (length leftNames) (length rightNames))
      else if int (length (sourceColumns left)) + int (length (sourceColumns right))
                - int (length leftNames) < 0
      then Panic MakesliceCapOutOfRange
      else
        (case using_loop ext (sourceColumns left) (sourceColumns right) leftNames rightNames
                [0 ..< length leftNames]
                \<lparr>cmpOps = replicate (length leftNames) None,
                 leftUsingIdx = replicate (length leftNames) 0,
                 rightUsingIdx = replicate (length rightNames) 0,
                 usedLeft = replicate (length (sourceColumns left)) (invalidColIdx ext),
                 usedRight = replicate (length (sourceColumns right)) (invalidColIdx ext),
                 columns = []\<rparr> of
           Panic x \<Rightarrow> Panic x
         | Error err \<Rightarrow> Error err
         | Return st \<Rightarrow>
             if int (length (sourceColumns left)) - 1 < 0 then Panic MakesliceCapOutOfRange
             else
               (case rest_loop (invalidColIdx ext) (sourceColumns left)
                       [0 ..< length (sourceColumns left)] ([], usedLeft st, columns st) of
                  Panic x \<Rightarrow> Panic x
                | Error err \<Rightarrow> Error err
                | Return (leftRest, usedLeft', columns1) \<Rightarrow>
                    if int (length (sourceColumns right)) - 1 < 0 then Panic MakesliceCapOutOfRange
                    else
                      (case rest_loop (invalidColIdx ext) (sourceColumns right)
                              [0 ..< length (sourceColumns right)] ([], usedRight st, columns1) of
                         Panic x \<Rightarrow> Panic x
                       | Error err \<Rightarrow> Error err
                       | Return (rightRest, usedRight', columns2) \<Rightarrow>
                           (case remap_aliases usedLeft' (DAList.impl_of (sourceAliases left))
                                   DAList.empty of
                              None \<Rightarrow> Panic IndexOutOfRange
                            | Some aliases1 \<Rightarrow>
                           (case remap_aliases usedRight' (DAList.impl_of (sourceAliases right))
                                   aliases1 of
                              None \<Rightarrow> Panic IndexOutOfRange
                            | Some aliases2 \<Rightarrow>
                                Return
                                  (\<lparr>leftColNames = leftNames, rightColNames = rightNames,
                                    usingCmp = cmpOps st, evalCtx = ctx,
                                    leftUsingIndices = leftUsingIdx st,
                                    rightUsingIndices = rightUsingIdx st,
                                    leftRestIndices = leftRest,
                                    rightRestIndices = rightRest\<rparr>,
                                   \<lparr>sourceColumns = columns2, sourceAliases = aliases2\<rparr>,
                                   usedLeft', usedRight')))))))"

definition makeEqualityPredicate ::
  "('ty, 'c, 'v, 'e) externals \<Rightarrow> 'c \<Rightarrow> ('ty, 'a) dataSourceInfo \<Rightarrow> ('ty, 'a) dataSourceInfo
     \<Rightarrow> string list \<Rightarrow> string list
     \<Rightarrow> ('ty usingError, ('c, 'v, 'e) equalityPredicate \<times> ('ty, 'a) dataSourceInfo) outcome" where
  "makeEqualityPredicate ext ctx left right leftNames rightNames =
     (case makeEqualityPredicate_run ext ctx left right leftNames rightNames of
        Panic x \<Rightarrow> Panic x
      | Error err \<Rightarrow> Error err
      | Return (pred, info, usedLeft', usedRight') \<Rightarrow> Return (pred, info))"

text \<open>
  The loop of \<open>makeUsingPredicate\<close> over \<open>colNames\<close>, with the set \<open>seenNames\<close>: the
  error of the first name seen before, if there is one.
\<close>

fun seenNames_loop ::
  "(string \<Rightarrow> string) \<Rightarrow> string list \<Rightarrow> string set \<Rightarrow> 'ty usingError option" where
  "seenNames_loop norm [] seenNames = None"
| "seenNames_loop norm (unnormalizedColName # colNames) seenNames =
     (let colName = norm unnormalizedColName in
      if colName \<in> seenNames then Some (ColumnMoreThanOnce colName)
      else seenNames_loop norm colNames (insert colName seenNames))"

definition makeUsingPredicate ::
  "('ty, 'c, 'v, 'e) externals \<Rightarrow> 'c \<Rightarrow> ('ty, 'a) dataSourceInfo \<Rightarrow> ('ty, 'a) dataSourceInfo
     \<Rightarrow> string list
     \<Rightarrow> ('ty usingError, ('c, 'v, 'e) equalityPredicate \<times> ('ty, 'a) dataSourceInfo) outcome" where
  "makeUsingPredicate ext ctx left right colNames =
     (case seenNames_loop (Normalize ext) colNames {} of
        Some err \<Rightarrow> Error err
      | None \<Rightarrow> makeEqualityPredicate ext ctx left right colNames colNames)"

section \<open>Notions used in the statements\<close>

text \<open>
  Pair \<open>i\<close> compares equal: both values can be read and are not null, and the pair's
  comparison function returns true.
\<close>

definition pairOK ::
  "('c, 'v, 'e) equalityPredicate \<Rightarrow> 'v DTuple \<Rightarrow> 'v DTuple \<Rightarrow> nat \<Rightarrow> bool" where
  "pairOK p leftRow rightRow i \<longleftrightarrow>
     (\<exists>lv rv cmp. atAt leftRow (leftUsingIndices p) (int i) = Some lv \<and>
        atAt rightRow (rightUsingIndices p) (int i) = Some rv \<and> lv \<noteq> DNull \<and> rv \<noteq> DNull \<and>
        at (usingCmp p) (int i) = Some (Some cmp) \<and> cmp (evalCtx p) lv rv = Inr True)"

text \<open>
  A column matches \<open>colName\<close> for \<open>pickUsingColumn\<close>: it is not hidden and its
  renormalized name is \<open>colName\<close>.
\<close>

definition visibleMatch :: "(string \<Rightarrow> string) \<Rightarrow> string \<Rightarrow> 'ty ResultColumn \<Rightarrow> bool" where
  "visibleMatch rn colName col \<longleftrightarrow> \<not> hidden col \<and> rn (Name col) = colName"

text \<open>
  Pair \<open>i\<close> of the name lists resolves to the positions \<open>leftIdx\<close> and \<open>rightIdx\<close>
  with the comparison \<open>fn\<close>: \<open>pickUsingColumn\<close> returns a column for the normalized
  name on each side, and \<open>FindEqualComparisonFunction\<close> finds \<open>fn\<close> for their types.
\<close>

definition pairResolved ::
  "('ty, 'c, 'v, 'e) externals \<Rightarrow> 'ty ResultColumn list \<Rightarrow> 'ty ResultColumn list
     \<Rightarrow> string list \<Rightarrow> string list \<Rightarrow> nat \<Rightarrow> int \<Rightarrow> int \<Rightarrow> ('c, 'v, 'e) cmpFn \<Rightarrow> bool" where
  "pairResolved ext lc rc ln rn i leftIdx rightIdx fn \<longleftrightarrow>
     i < length ln \<and> i < length rn \<and>
     (\<exists>lt rt. pickUsingColumn ext lc (Normalize ext (ln ! i)) ''left'' = Return (leftIdx, lt) \<and>
              pickUsingColumn ext rc (Normalize ext (rn ! i)) ''right'' = Return (rightIdx, rt) \<and>
              FindEqualComparisonFunction ext lt rt = Some fn)"

text \<open>
  The locals of \<open>makeEqualityPredicate\<close> before its first loop, and after one
  iteration of it; \<open>localsSized\<close> says that the arrays have the lengths they were
  made with.
\<close>

definition initLocals ::
  "('ty, 'c, 'v, 'e) externals \<Rightarrow> 'ty ResultColumn list \<Rightarrow> 'ty ResultColumn list \<Rightarrow> nat
     \<Rightarrow> ('ty, 'c, 'v, 'e) locals" where
  "initLocals ext lc rc n =
     \<lparr>cmpOps = replicate n None, leftUsingIdx = replicate n 0, rightUsingIdx = replicate n 0,
      usedLeft = replicate (length lc) (invalidColIdx ext),
      usedRight = replicate (length rc) (invalidColIdx ext), columns = []\<rparr>"

definition stepLocals ::
  "('ty, 'c, 'v, 'e) locals \<Rightarrow> nat \<Rightarrow> int \<Rightarrow> int \<Rightarrow> ('c, 'v, 'e) cmpFn \<Rightarrow> 'ty ResultColumn
     \<Rightarrow> ('ty, 'c, 'v, 'e) locals" where
  "stepLocals st i leftIdx rightIdx fn col =
     \<lparr>cmpOps = (cmpOps st)[i := Some fn],
      leftUsingIdx = (leftUsingIdx st)[i := leftIdx],
      rightUsingIdx = (rightUsingIdx st)[i := rightIdx],
      usedLeft = (usedLeft st)[nat leftIdx := int i],
      usedRight = (usedRight st)[nat rightIdx := int i],
      columns = columns st @ [col]\<rparr>"

definition localsSized ::
  "('ty, 'c, 'v, 'e) locals \<Rightarrow> nat \<Rightarrow> nat \<Rightarrow> nat \<Rightarrow> bool" where
  "localsSized st n ml mr \<longleftrightarrow>
     length (cmpOps st) = n \<and> length (leftUsingIdx st) = n \<and> length (rightUsingIdx st) = n \<and>
     length (usedLeft st) = ml \<and> length (usedRight st) = mr"

section \<open>Sample inputs\<close>

text \<open>
  A predicate for \<open>USING(a, b)\<close> over rows of three integer columns: the left row has
  \<open>a, b\<close> at positions 0 and 1, the right row at positions 1 and 0. The sample
  comparison fails on a left value 0; the sample encoding fails on negative values.
\<close>

definition sampleCmp :: "(unit, int, string) cmpFn" where
  "sampleCmp ctx x y = (if x = DValue 0 then Inl ''cmp failed'' else Inr (x = y))"

definition samplePred :: "(unit, int, string) equalityPredicate" where
  "samplePred =
     \<lparr>leftColNames = [''a'', ''b''], rightColNames = [''a'', ''b''],
      usingCmp = [Some sampleCmp, Some sampleCmp], evalCtx = (),
      leftUsingIndices = [0, 1], rightUsingIndices = [1, 0],
      leftRestIndices = [2], rightRestIndices = [2]\<rparr>"

definition sampleEncoding :: "int Datum \<Rightarrow> string + byte list" where
  "sampleEncoding d =
     (case d of DNull \<Rightarrow> Inr [0]
      | DValue v \<Rightarrow> if v < 0 then Inl ''unencodable'' else Inr [1, word_of_int v])"

definition sampleBytes :: "int Datum \<Rightarrow> byte list" where
  "sampleBytes d = (case d of DNull \<Rightarrow> [0] | DValue v \<Rightarrow> [1, word_of_int v])"

text \<open>
  Two sources for the construction: the left one has the columns \<open>b, a\<close>, the right
  one \<open>a, c\<close>; both have an alias of their own and the alias \<open>t\<close>. The sample
  resolver finds a comparison for equal types only. \<open>sampleJoinPred\<close> and
  \<open>sampleJoinInfo\<close> are what \<open>USING(a)\<close> builds from them.
\<close>

definition sampleEq :: "(unit, int, string) cmpFn" where
  "sampleEq ctx x y = Inr (x = y)"

definition sampleExt :: "(nat, unit, int, string) externals" where
  "sampleExt =
     \<lparr>Normalize = (\<lambda>s. s), ReNormalizeName = (\<lambda>s. s),
      FindEqualComparisonFunction = (\<lambda>t1 t2. if t1 = t2 then Some sampleEq else None),
      invalidColIdx = - 1\<rparr>"

definition colA :: "nat ResultColumn" where
  "colA = \<lparr>Name = ''a'', Typ = 0, hidden = False\<rparr>"

definition colB :: "nat ResultColumn" where
  "colB = \<lparr>Name = ''b'', Typ = 1, hidden = False\<rparr>"

definition colC :: "nat ResultColumn" where
  "colC = \<lparr>Name = ''c'', Typ = 1, hidden = False\<rparr>"

definition sampleLeft :: "(nat, string) dataSourceInfo" where
  "sampleLeft =
     \<lparr>sourceColumns = [colB, colA],
      sourceAliases = DAList.update ''t'' [1] (DAList.update ''l'' [0, 1] DAList.empty)\<rparr>"

definition sampleRight :: "(nat, string) dataSourceInfo" where
  "sampleRight =
     \<lparr>sourceColumns = [colA, colC],
      sourceAliases = DAList.update ''t'' [1] (DAList.update ''r'' [0, 1] DAList.empty)\<rparr>"

definition sampleJoinPred :: "(unit, int, string) equalityPredicate" where
  "sampleJoinPred =
     \<lparr>leftColNames = [''a''], rightColNames = [''a''], usingCmp = [Some sampleEq], evalCtx = (),
      leftUsingIndices = [1], rightUsingIndices = [0],
      leftRestIndices = [0], rightRestIndices = [1]\<rparr>"

definition sampleJoinInfo :: "(nat, string) dataSourceInfo" where
  "sampleJoinInfo =
     \<lparr>sourceColumns = [colA, colB, colC],
      sourceAliases =
        DAList.update ''t'' [2] (DAList.update ''r'' [0, 2]
          (DAList.update ''t'' [0] (DAList.update ''l'' [1, 0] DAList.empty)))\<rparr>"

section \<open>The rows of a join: \<open>eval\<close>\<close>

lemma eval_loop_ok_step:
  "pairOK p l r i \<Longrightarrow> eval_loop p l r (i # rest) = eval_loop p l r rest"
  by (auto simp: pairOK_def)

lemma eval_loop_ok_prefix:
  "\<forall>i\<in>set xs. pairOK p l r i \<Longrightarrow> eval_loop p l r (xs @ ys) = eval_loop p l r ys"
  by (induction xs) (simp_all add: eval_loop_ok_step del: eval_loop.simps)

lemma upt_split: "k < n \<Longrightarrow> [0..<n] = [0..<k] @ k # [Suc k..<n]"
  by (metis le_add1 le_add_same_cancel1 less_imp_add_positive upt_add_eq_append upt_conv_Cons)

lemma eval_loop_first_fail:
  assumes "k < n" "\<forall>i<k. pairOK p l r i"
  shows "eval_loop p l r [0..<n] = eval_loop p l r (k # [Suc k..<n])"
  using assms by (simp add: upt_split[of k n] eval_loop_ok_prefix del: eval_loop.simps)

lemma eval_loop_all_ok:
  assumes "\<forall>i<n. pairOK p l r i"
  shows "eval_loop p l r [0..<n] = Return True"
  using eval_loop_ok_prefix[of "[0..<n]" p l r "[]"] assms by simp

text \<open>
  Claim C1. For the equality predicate, with \<open>n\<close> USING pairs whose values are
  \<open>lv i\<close> (left) and \<open>rv i\<close> (right) and whose comparison functions are \<open>cmp i\<close>:
  \<open>eval\<close> returns true exactly when every pair has non-null values on both sides and
  its comparison returns true. At the first pair that does not compare equal, \<open>eval\<close>
  returns false with no error when a value is null (the comparison function is not
  called) or the comparison returns false, and returns the error when the comparison
  fails. Nothing is assumed of the pairs after that one: they are not examined.
\<close>

theorem equalityPredicate_eval_spec:
  fixes p :: "('c, 'v, 'e) equalityPredicate"
    and leftRow rightRow :: "'v DTuple"
    and lv rv :: "nat \<Rightarrow> 'v Datum" and cmp :: "nat \<Rightarrow> ('c, 'v, 'e) cmpFn"
  defines "n \<equiv> length (leftColNames p)"
  defines "V \<equiv> \<lambda>i. atAt leftRow (leftUsingIndices p) (int i) = Some (lv i) \<and>
                    atAt rightRow (rightUsingIndices p) (int i) = Some (rv i)"
  defines "C \<equiv> \<lambda>i. at (usingCmp p) (int i) = Some (Some (cmp i))"
  defines "E \<equiv> \<lambda>i. lv i \<noteq> DNull \<and> rv i \<noteq> DNull \<and> cmp i (evalCtx p) (lv i) (rv i) = Inr True"
  shows "((\<forall>i<n. V i \<and> C i) \<longrightarrow>
            (fst (equalityPredicate_eval p result leftRow rightRow) = Return True \<longleftrightarrow> (\<forall>i<n. E i)))
       \<and> (\<forall>k<n. (\<forall>i<k. V i \<and> C i \<and> E i) \<and> V k \<and> (lv k = DNull \<or> rv k = DNull) \<longrightarrow>
            fst (equalityPredicate_eval p result leftRow rightRow) = Return False)
       \<and> (\<forall>k<n. \<forall>err. (\<forall>i<k. V i \<and> C i \<and> E i) \<and> V k \<and> C k \<and> lv k \<noteq> DNull \<and> rv k \<noteq> DNull \<and>
               cmp k (evalCtx p) (lv k) (rv k) = Inl err \<longrightarrow>
            fst (equalityPredicate_eval p result leftRow rightRow) = Error err)
       \<and> (\<forall>k<n. (\<forall>i<k. V i \<and> C i \<and> E i) \<and> V k \<and> C k \<and> lv k \<noteq> DNull \<and> rv k \<noteq> DNull \<and>
               cmp k (evalCtx p) (lv k) (rv k) = Inr False \<longrightarrow>
            fst (equalityPredicate_eval p result leftRow rightRow) = Return False)"
proof -
  let ?ev = "eval_loop p leftRow rightRow [0..<n]"
  have ev: "fst (equalityPredicate_eval p result leftRow rightRow) = ?ev"
    by (simp add: equalityPredicate_eval_def n_def)
  have ok: "pairOK p leftRow rightRow i" if "V i" "C i" "E i" for i
    using that unfolding pairOK_def V_def C_def E_def by blast
  have null: "?ev = Return False"
    if "k < n" "\<forall>i<k. V i \<and> C i \<and> E i" "V k" "lv k = DNull \<or> rv k = DNull" for k
  proof -
    have "?ev = eval_loop p leftRow rightRow (k # [Suc k..<n])"
      using that ok by (intro eval_loop_first_fail) auto
    then show ?thesis using that(3,4) by (auto simp: V_def)
  qed
  have err: "?ev = Error e"
    if "k < n" "\<forall>i<k. V i \<and> C i \<and> E i" "V k" "C k" "lv k \<noteq> DNull" "rv k \<noteq> DNull"
       "cmp k (evalCtx p) (lv k) (rv k) = Inl e" for k e
  proof -
    have "?ev = eval_loop p leftRow rightRow (k # [Suc k..<n])"
      using that ok by (intro eval_loop_first_fail) auto
    then show ?thesis using that(3-7) by (simp add: V_def C_def)
  qed
  have neq: "?ev = Return False"
    if "k < n" "\<forall>i<k. V i \<and> C i \<and> E i" "V k" "C k" "lv k \<noteq> DNull" "rv k \<noteq> DNull"
       "cmp k (evalCtx p) (lv k) (rv k) = Inr False" for k
  proof -
    have "?ev = eval_loop p leftRow rightRow (k # [Suc k..<n])"
      using that ok by (intro eval_loop_first_fail) auto
    then show ?thesis using that(3-7) by (simp add: V_def C_def)
  qed
  have iff: "?ev = Return True \<longleftrightarrow> (\<forall>i<n. E i)" if wf: "\<forall>i<n. V i \<and> C i"
  proof
    assume "\<forall>i<n. E i"
    then show "?ev = Return True" using wf ok by (intro eval_loop_all_ok) auto
  next
    assume T: "?ev = Return True"
    show "\<forall>i<n. E i"
    proof (rule ccontr)
      assume "\<not> (\<forall>i<n. E i)"
      then have "\<exists>k. k < n \<and> \<not> E k" by blast
      then obtain k where k0: "k < n \<and> \<not> E k" "\<forall>i<k. \<not> (i < n \<and> \<not> E i)"
        using exists_least_iff[of "\<lambda>k. k < n \<and> \<not> E k"] by blast
      then have k: "k < n" "\<not> E k" "\<forall>i<k. E i"
        using less_trans by blast+
      have pre: "\<forall>i<k. V i \<and> C i \<and> E i" using k wf by auto
      have Vk: "V k" and Ck: "C k" using wf k by auto
      consider "lv k = DNull \<or> rv k = DNull"
        | e where "lv k \<noteq> DNull" "rv k \<noteq> DNull" "cmp k (evalCtx p) (lv k) (rv k) = Inl e"
        | "lv k \<noteq> DNull" "rv k \<noteq> DNull" "cmp k (evalCtx p) (lv k) (rv k) = Inr False"
        using k(2) unfolding E_def by (cases "cmp k (evalCtx p) (lv k) (rv k)") auto
      then show False
      proof cases
        case 1 then show ?thesis using null[OF k(1) pre Vk] T by simp
      next
        case 2 then show ?thesis using err[OF k(1) pre Vk Ck] T by simp
      next
        case 3 then show ?thesis using neq[OF k(1) pre Vk Ck] T by simp
      qed
    qed
  qed
  have c1: "(\<forall>i<n. V i \<and> C i) \<longrightarrow> (?ev = Return True \<longleftrightarrow> (\<forall>i<n. E i))"
    using iff by blast
  have c2: "\<forall>k<n. (\<forall>i<k. V i \<and> C i \<and> E i) \<and> V k \<and> (lv k = DNull \<or> rv k = DNull) \<longrightarrow>
            ?ev = Return False"
    using null by blast
  have c3: "\<forall>k<n. \<forall>err. (\<forall>i<k. V i \<and> C i \<and> E i) \<and> V k \<and> C k \<and> lv k \<noteq> DNull \<and> rv k \<noteq> DNull \<and>
               cmp k (evalCtx p) (lv k) (rv k) = Inl err \<longrightarrow> ?ev = Error err"
    using err by blast
  have c4: "\<forall>k<n. (\<forall>i<k. V i \<and> C i \<and> E i) \<and> V k \<and> C k \<and> lv k \<noteq> DNull \<and> rv k \<noteq> DNull \<and>
               cmp k (evalCtx p) (lv k) (rv k) = Inr False \<longrightarrow> ?ev = Return False"
    using neq by blast
  show ?thesis
    unfolding ev using c1 c2 c3 c4 by (intro conjI)
qed

text \<open>Four rows for the sample predicate: all equal, a null, a failing comparison, a difference.\<close>

theorem equalityPredicate_eval_spec_witness:
  "fst (equalityPredicate_eval samplePred []
          [DValue 1, DValue 2, DValue 7] [DValue 2, DValue 1, DValue 8]) = Return True
   \<and> fst (equalityPredicate_eval samplePred []
          [DValue 1, DNull, DValue 7] [DValue 0, DValue 1, DValue 8]) = Return False
   \<and> fst (equalityPredicate_eval samplePred []
          [DValue 1, DValue 0, DValue 7] [DValue 5, DValue 1, DValue 8]) = Error ''cmp failed''
   \<and> fst (equalityPredicate_eval samplePred []
          [DValue 1, DValue 2, DValue 7] [DValue 3, DValue 1, DValue 8]) = Return False"
proof -
  note defs = samplePred_def sampleCmp_def atAt_def at_def All_less_Suc
  have 1: "fst (equalityPredicate_eval samplePred []
          [DValue 1, DValue 2, DValue 7] [DValue 2, DValue 1, DValue 8]) = Return True"
    using equalityPredicate_eval_spec[where p = samplePred and result = "[]"
        and leftRow = "[DValue 1, DValue 2, DValue 7]" and rightRow = "[DValue 2, DValue 1, DValue 8]"
        and lv = "\<lambda>i. [DValue 1, DValue 2] ! i" and rv = "\<lambda>i. [DValue 1, DValue 2] ! i"
        and cmp = "\<lambda>i. sampleCmp"]
    by (simp add: defs)
  have 2: "fst (equalityPredicate_eval samplePred []
          [DValue 1, DNull, DValue 7] [DValue 0, DValue 1, DValue 8]) = Return False"
    using equalityPredicate_eval_spec[where p = samplePred and result = "[]"
        and leftRow = "[DValue 1, DNull, DValue 7]" and rightRow = "[DValue 0, DValue 1, DValue 8]"
        and lv = "\<lambda>i. [DValue 1, DNull] ! i" and rv = "\<lambda>i. [DValue 1, DValue 0] ! i"
        and cmp = "\<lambda>i. sampleCmp"]
    by (simp add: defs)
  have 3: "fst (equalityPredicate_eval samplePred []
          [DValue 1, DValue 0, DValue 7] [DValue 5, DValue 1, DValue 8]) = Error ''cmp failed''"
    using equalityPredicate_eval_spec[where p = samplePred and result = "[]"
        and leftRow = "[DValue 1, DValue 0, DValue 7]" and rightRow = "[DValue 5, DValue 1, DValue 8]"
        and lv = "\<lambda>i. [DValue 1, DValue 0] ! i" and rv = "\<lambda>i. [DValue 1, DValue 5] ! i"
        and cmp = "\<lambda>i. sampleCmp"]
    by (simp add: defs)
  have 4: "fst (equalityPredicate_eval samplePred []
          [DValue 1, DValue 2, DValue 7] [DValue 3, DValue 1, DValue 8]) = Return False"
    using equalityPredicate_eval_spec[where p = samplePred and result = "[]"
        and leftRow = "[DValue 1, DValue 2, DValue 7]" and rightRow = "[DValue 3, DValue 1, DValue 8]"
        and lv = "\<lambda>i. [DValue 1, DValue 2] ! i" and rv = "\<lambda>i. [DValue 1, DValue 3] ! i"
        and cmp = "\<lambda>i. sampleCmp"]
    by (simp add: defs)
  show ?thesis using 1 2 3 4 by (intro conjI)
qed

section \<open>The rows of a join: \<open>prepareRow\<close>\<close>

lemma put_nat: "d < length result \<Longrightarrow> put result (int d) v = Some (result[d := v])"
  by (simp add: put_def)

lemma at_nat: "0 \<le> j \<Longrightarrow> j < int (length row) \<Longrightarrow> at row j = Some (row ! nat j)"
  by (simp add: at_def)

lemma take_Suc_update:
  "d < length result \<Longrightarrow> take (Suc d) (result[d := v]) = take d result @ [v]"
  by (simp add: take_Suc_conv_app_nth)

lemma prepareRow_rest_spec:
  assumes "\<forall>j\<in>set js. 0 \<le> j \<and> j < int (length row)" "d + length js \<le> length result"
  shows "prepareRow_rest result row (int d) js =
           Return (take d result @ map (\<lambda>j. row ! nat j) js @ drop (d + length js) result,
                   int (d + length js))"
  using assms
proof (induction js arbitrary: result d)
  case Nil
  then show ?case by simp
next
  case (Cons j js)
  have d: "d < length result" using Cons.prems by simp
  have step: "prepareRow_rest result row (int d) (j # js) =
          prepareRow_rest (result[d := row ! nat j]) row (int (Suc d)) js"
    using Cons.prems d by (simp add: at_nat put_nat add.commute)
  show ?case
    unfolding step
    using Cons.prems d Cons.IH[of "Suc d" "result[d := row ! nat j]"]
    by (simp add: take_Suc_update)
qed

lemma prepareRow_using_spec:
  assumes "\<forall>(k, j)\<in>set kjs. 0 \<le> j \<and> j < int (length leftRow) \<and>
             (leftRow ! nat j = DNull \<longrightarrow>
                k < length (rightUsingIndices p) \<and> 0 \<le> rightUsingIndices p ! k \<and>
                rightUsingIndices p ! k < int (length rightRow))"
    and "d + length kjs \<le> length result"
  shows "prepareRow_using p result leftRow rightRow (int d) kjs =
           Return (take d result @
                   map (\<lambda>(k, j). if leftRow ! nat j \<noteq> DNull then leftRow ! nat j
                                  else rightRow ! nat (rightUsingIndices p ! k)) kjs @
                   drop (d + length kjs) result,
                   int (d + length kjs))"
  using assms
proof (induction kjs arbitrary: result d)
  case Nil
  then show ?case by simp
next
  case (Cons kj kjs)
  obtain k j where kj: "kj = (k, j)" by (cases kj)
  let ?v = "if leftRow ! nat j \<noteq> DNull then leftRow ! nat j
            else rightRow ! nat (rightUsingIndices p ! k)"
  have d: "d < length result" using Cons.prems by simp
  have step: "prepareRow_using p result leftRow rightRow (int d) (kj # kjs) =
          prepareRow_using p (result[d := ?v]) leftRow rightRow (int (Suc d)) kjs"
    using Cons.prems d unfolding kj by (simp add: at_nat put_nat add.commute atAt_def)
  show ?case
    unfolding step
    using Cons.prems d Cons.IH[of "Suc d" "result[d := ?v]"]
    unfolding kj by (simp add: take_Suc_update)
qed


lemma map_enumerate_nth:
  "map (\<lambda>(k, j). f k j) (enumerate 0 xs) = map (\<lambda>k. f k (xs ! k)) [0..<length xs]"
  by (rule nth_equalityI) (simp_all add: nth_enumerate_eq)

text \<open>
  Claim C2. When the positions of the predicate lie within the rows and the buffer has
  room for \<open>W\<close> values (the USING pairs, the left rest and the right rest),
  \<open>prepareRow\<close> fills the buffer with one coalesced value per USING pair in pair
  order (the left value unless it is null, then the right value), then the left row's
  rest values in the order of \<open>leftRestIndices\<close>, then the right row's rest values in
  the order of \<open>rightRestIndices\<close>; what the buffer holds beyond \<open>W\<close> is unchanged.
\<close>

theorem equalityPredicate_prepareRow_spec:
  fixes p :: "('c, 'v, 'e) equalityPredicate" and leftRow rightRow result :: "'v DTuple"
  defines "W \<equiv> length (leftUsingIndices p) + length (leftRestIndices p) +
                      length (rightRestIndices p)"
  assumes lens: "length (rightUsingIndices p) = length (leftUsingIndices p)"
    and lu: "\<forall>j\<in>set (leftUsingIndices p). 0 \<le> j \<and> j < int (length leftRow)"
    and ru: "\<forall>j\<in>set (rightUsingIndices p). 0 \<le> j \<and> j < int (length rightRow)"
    and lr: "\<forall>j\<in>set (leftRestIndices p). 0 \<le> j \<and> j < int (length leftRow)"
    and rr: "\<forall>j\<in>set (rightRestIndices p). 0 \<le> j \<and> j < int (length rightRow)"
    and width: "W \<le> length result"
  shows "(equalityPredicate_prepareRow p result leftRow rightRow :: ('e, 'v DTuple) outcome) =
           Return (map (\<lambda>k. if leftRow ! nat (leftUsingIndices p ! k) \<noteq> DNull
                             then leftRow ! nat (leftUsingIndices p ! k)
                             else rightRow ! nat (rightUsingIndices p ! k))
                       [0..<length (leftUsingIndices p)] @
                   map (\<lambda>j. leftRow ! nat j) (leftRestIndices p) @
                   map (\<lambda>j. rightRow ! nat j) (rightRestIndices p) @
                   drop W result)"
proof -
  let ?n = "length (leftUsingIndices p)"
  let ?coalesce = "\<lambda>k j. if leftRow ! nat j \<noteq> DNull then leftRow ! nat j
                         else rightRow ! nat (rightUsingIndices p ! k)"
  let ?U = "map (\<lambda>k. ?coalesce k (leftUsingIndices p ! k)) [0..<?n]"
  let ?L = "map (\<lambda>j. leftRow ! nat j) (leftRestIndices p)"
  let ?R = "map (\<lambda>j. rightRow ! nat j) (rightRestIndices p)"
  let ?r1 = "?U @ drop ?n result"
  let ?r2 = "?U @ ?L @ drop (?n + length (leftRestIndices p)) result"
  have pre: "\<forall>(k, j)\<in>set (enumerate 0 (leftUsingIndices p)).
               0 \<le> j \<and> j < int (length leftRow) \<and>
               (leftRow ! nat j = DNull \<longrightarrow>
                  k < length (rightUsingIndices p) \<and> 0 \<le> rightUsingIndices p ! k \<and>
                  rightUsingIndices p ! k < int (length rightRow))"
    using lu ru lens by (auto simp: in_set_enumerate_eq)
  have s1: "prepareRow_using p result leftRow rightRow 0 (enumerate 0 (leftUsingIndices p)) =
              (Return (?r1, int ?n) :: ('e, 'v DTuple \<times> int) outcome)"
    using prepareRow_using_spec[OF pre, of 0 result] width
    by (simp add: W_def map_enumerate_nth)
  have w2: "?n + length (leftRestIndices p) \<le> length ?r1"
    using width by (simp add: W_def)
  have s2: "prepareRow_rest ?r1 leftRow (int ?n) (leftRestIndices p) =
              (Return (?r2, int (?n + length (leftRestIndices p))) :: ('e, 'v DTuple \<times> int) outcome)"
    using prepareRow_rest_spec[OF lr w2] by (simp add: add.commute)
  have w3: "(?n + length (leftRestIndices p)) + length (rightRestIndices p) \<le> length ?r2"
    using width by (simp add: W_def)
  have s3: "prepareRow_rest ?r2 rightRow (int (?n + length (leftRestIndices p))) (rightRestIndices p) =
              (Return (?U @ ?L @ ?R @ drop W result, int W) :: ('e, 'v DTuple \<times> int) outcome)"
    using prepareRow_rest_spec[OF rr w3]
    by (simp add: W_def add.commute add.left_commute)
  show ?thesis
    unfolding equalityPredicate_prepareRow_def s1 outcome.case prod.case s2 s3 by simp
qed

text \<open>The coalesce law on the sample predicate: left value, both null, right value.\<close>

theorem equalityPredicate_prepareRow_spec_witness:
  "equalityPredicate_prepareRow samplePred [DNull, DNull, DNull, DNull]
      [DValue 5, DNull, DValue 7] [DNull, DNull, DValue 8] =
     (Return [DValue 5, DNull, DValue 7, DValue 8] :: (string, int DTuple) outcome)
   \<and> equalityPredicate_prepareRow samplePred [DValue 0, DValue 0, DValue 0, DValue 0]
      [DNull, DValue 2, DValue 7] [DValue 2, DValue 9, DValue 8] =
     (Return [DValue 9, DValue 2, DValue 7, DValue 8] :: (string, int DTuple) outcome)"
proof -
  have 1: "equalityPredicate_prepareRow samplePred [DNull, DNull, DNull, DNull]
      [DValue 5, DNull, DValue 7] [DNull, DNull, DValue 8] =
     (Return [DValue 5, DNull, DValue 7, DValue 8] :: (string, int DTuple) outcome)"
    using equalityPredicate_prepareRow_spec[where p = samplePred
        and result = "[DNull, DNull, DNull, DNull]"
        and leftRow = "[DValue 5, DNull, DValue 7]" and rightRow = "[DNull, DNull, DValue 8]"]
    by (simp add: samplePred_def upt_rec)
  have 2: "equalityPredicate_prepareRow samplePred [DValue 0, DValue 0, DValue 0, DValue 0]
      [DNull, DValue 2, DValue 7] [DValue 2, DValue 9, DValue 8] =
     (Return [DValue 9, DValue 2, DValue 7, DValue 8] :: (string, int DTuple) outcome)"
    using equalityPredicate_prepareRow_spec[where p = samplePred
        and result = "[DValue 0, DValue 0, DValue 0, DValue 0]"
        and leftRow = "[DNull, DValue 2, DValue 7]" and rightRow = "[DValue 2, DValue 9, DValue 8]"]
    by (simp add: samplePred_def upt_rec)
  show ?thesis using 1 2 by (intro conjI)
qed

section \<open>The rows of a join: \<open>encode\<close>\<close>

lemma appendingEncoder_Inr:
  "encoding d = Inr bs \<Longrightarrow> appendingEncoder encoding b d = Inr (b @ bs)"
  by (simp add: appendingEncoder_def)

lemma appendingEncoder_Inl:
  "encoding d = Inl err \<Longrightarrow> appendingEncoder encoding b d = Inl err"
  by (simp add: appendingEncoder_def)

lemma encode_loop_ok:
  assumes "\<forall>c\<in>set cols. 0 \<le> c \<and> c < int (length row)"
    and "\<forall>c\<in>set cols. encoding (row ! nat c) = Inr (bytes (row ! nat c))"
  shows "encode_loop (appendingEncoder encoding) b row cn cols =
           Return (b @ concat (map (\<lambda>c. bytes (row ! nat c)) cols),
                   cn \<or> (\<exists>c\<in>set cols. row ! nat c = DNull))"
  using assms
  by (induction cols arbitrary: b cn) (auto simp: at_nat appendingEncoder_Inr)

lemma encode_loop_err:
  assumes "\<forall>c\<in>set cols. 0 \<le> c \<and> c < int (length row)"
    and "k < length cols"
    and "\<forall>j<k. \<exists>bs. encoding (row ! nat (cols ! j)) = Inr bs"
    and "encoding (row ! nat (cols ! k)) = Inl err"
  shows "encode_loop (appendingEncoder encoding) b row cn cols = Error err"
  using assms
proof (induction cols arbitrary: b cn k)
  case Nil
  then show ?case by simp
next
  case (Cons c cols)
  show ?case
  proof (cases k)
    case 0
    then show ?thesis using Cons.prems by (simp add: at_nat appendingEncoder_Inl)
  next
    case (Suc k')
    from Cons.prems(3) Suc obtain bs where bs: "encoding (row ! nat c) = Inr bs"
      by force
    have "encode_loop (appendingEncoder encoding) (b @ bs) row
             (if row ! nat c = DNull then True else cn) cols = Error err"
      using Cons.prems Suc by (intro Cons.IH[of k']) auto
    then show ?thesis using Cons.prems(1) bs by (simp add: at_nat appendingEncoder_Inr)
  qed
qed

text \<open>
  Claim C4. For a recognised side, with the side's USING positions within the row and
  an encoder that appends: when every USING value is encodable, \<open>encode\<close> returns the
  buffer followed by the encodings of the USING values in pair order, and
  \<open>containsNull\<close> is true exactly when one of these values is null; the first value
  that the encoder rejects makes \<open>encode\<close> return that error.
\<close>

theorem equalityPredicate_encode_spec:
  fixes p :: "('c, 'v, 'e) equalityPredicate" and encoding :: "'v Datum \<Rightarrow> 'e + byte list"
  defines "cols \<equiv> \<lambda>side. if side = rightSide then rightUsingIndices p else leftUsingIndices p"
  assumes side: "side = leftSide \<or> side = rightSide"
    and inrange: "\<forall>c\<in>set (cols side). 0 \<le> c \<and> c < int (length row)"
  shows "((\<forall>c\<in>set (cols side). encoding (row ! nat c) = Inr (bytes (row ! nat c))) \<longrightarrow>
            equalityPredicate_encode (appendingEncoder encoding) p b row side =
              Return (b @ concat (map (\<lambda>c. bytes (row ! nat c)) (cols side)),
                      \<exists>c\<in>set (cols side). row ! nat c = DNull))
       \<and> (\<forall>k<length (cols side). \<forall>err.
             (\<forall>j<k. \<exists>bs. encoding (row ! nat (cols side ! j)) = Inr bs) \<and>
             encoding (row ! nat (cols side ! k)) = Inl err \<longrightarrow>
            equalityPredicate_encode (appendingEncoder encoding) p b row side = Error err)"
proof -
  have enc: "equalityPredicate_encode (appendingEncoder encoding) p b row side =
               encode_loop (appendingEncoder encoding) b row False (cols side)"
    using side by (auto simp: equalityPredicate_encode_def cols_def leftSide_def rightSide_def)
  show ?thesis
    unfolding enc using encode_loop_ok[OF inrange, of encoding bytes b False]
      encode_loop_err[OF inrange, of _ encoding _ b False]
    by simp
qed

theorem equalityPredicate_encode_spec_witness:
  "equalityPredicate_encode (appendingEncoder sampleEncoding) samplePred [9]
      [DValue 1, DValue 2, DValue 3] leftSide = Return ([9, 1, 1, 1, 2], False)
   \<and> equalityPredicate_encode (appendingEncoder sampleEncoding) samplePred [9]
      [DNull, DValue 2, DValue 3] rightSide = Return ([9, 1, 2, 0], True)
   \<and> equalityPredicate_encode (appendingEncoder sampleEncoding) samplePred [9]
      [DValue 1, DValue (- 2), DValue 3] leftSide = Error ''unencodable''"
proof -
  note defs = samplePred_def sampleEncoding_def sampleBytes_def leftSide_def rightSide_def All_less_Suc
  have 1: "equalityPredicate_encode (appendingEncoder sampleEncoding) samplePred [9]
      [DValue 1, DValue 2, DValue 3] leftSide = Return ([9, 1, 1, 1, 2], False)"
    using equalityPredicate_encode_spec[where p = samplePred and side = leftSide
        and row = "[DValue 1, DValue 2, DValue 3]" and encoding = sampleEncoding
        and bytes = sampleBytes and b = "[9]"]
    by (simp add: defs)
  have 2: "equalityPredicate_encode (appendingEncoder sampleEncoding) samplePred [9]
      [DNull, DValue 2, DValue 3] rightSide = Return ([9, 1, 2, 0], True)"
    using equalityPredicate_encode_spec[where p = samplePred and side = rightSide
        and row = "[DNull, DValue 2, DValue 3]" and encoding = sampleEncoding
        and bytes = sampleBytes and b = "[9]"]
    by (simp add: defs)
  have 3: "equalityPredicate_encode (appendingEncoder sampleEncoding) samplePred [9]
      [DValue 1, DValue (- 2), DValue 3] leftSide = Error ''unencodable''"
    using equalityPredicate_encode_spec[where p = samplePred and side = leftSide
        and row = "[DValue 1, DValue (- 2), DValue 3]" and encoding = sampleEncoding
        and bytes = sampleBytes and b = "[9]"]
    by (simp add: defs)
  show ?thesis using 1 2 3 by (intro conjI)
qed

text \<open>
  Claim C6, as the code has it. \<open>encode\<close> on the ON predicate panics, and \<open>encode\<close> on
  the equality predicate with a side that is neither \<open>leftSide\<close> nor \<open>rightSide\<close>
  panics: neither returns an error. \<open>encode\<close> on the cross predicate is no violation: it
  returns the empty key, no null and no error.
\<close>

theorem encode_contract_violations:
  fixes p :: "('v, 'e) onPredicate" and q :: "('c, 'v, 'e) equalityPredicate"
    and EncodeDatum :: "byte list \<Rightarrow> 'v Datum \<Rightarrow> 'e + byte list"
  shows "onPredicate_encode p b row side = Panic OnEncodeUnimplemented
   \<and> (side \<noteq> leftSide \<and> side \<noteq> rightSide \<longrightarrow>
        equalityPredicate_encode EncodeDatum q b row side = Panic InvalidSide)
   \<and> (crossPredicate_encode b row side :: ('e, byte list \<times> bool) outcome) = Return ([], False)"
  by (simp add: onPredicate_encode_def equalityPredicate_encode_def crossPredicate_encode_def)

theorem encode_contract_violations_witness:
  "onPredicate_encode \<lparr>filter_fn = (\<lambda>row. Inr True :: string + bool), curRow = []\<rparr> []
      [DValue 1, DValue 2, DValue (3::int)] 2
     = Panic OnEncodeUnimplemented
   \<and> equalityPredicate_encode (appendingEncoder sampleEncoding) samplePred []
      [DValue 1, DValue 2, DValue 3] 2
     = Panic InvalidSide
   \<and> crossPredicate_encode [] [DValue 1, DValue 2, DValue (3::int)] 2
     = (Return ([], False) :: (string, byte list \<times> bool) outcome)"
  using encode_contract_violations[where side = 2 and b = "[]"
      and row = "[DValue 1, DValue 2, DValue 3]"
      and p = "\<lparr>filter_fn = (\<lambda>row. Inr True :: string + bool), curRow = []\<rparr>"
      and q = samplePred and EncodeDatum = "appendingEncoder sampleEncoding"]
  by (simp add: leftSide_def rightSide_def)

text \<open>
  The claim as stated fails for the cross predicate: its \<open>encode\<close> does not panic.
\<close>

theorem crossPredicate_encode_counterexample:
  "\<not> (\<exists>x. (crossPredicate_encode [] [DValue (1::int)] leftSide
            :: (string, byte list \<times> bool) outcome) = Panic x)"
  by (simp add: crossPredicate_encode_def)

section \<open>CROSS JOIN and ON\<close>

text \<open>
  Claim C8. The cross predicate's \<open>eval\<close> returns true with no error whatever the rows
  hold, and when the buffer is as wide as both rows together, \<open>prepareRow\<close> of the
  cross and the ON predicate writes the left row's values followed by the right row's.
\<close>

theorem cross_on_concat:
  fixes p :: "('v, 'e) onPredicate" and result leftRow rightRow leftRow' rightRow' :: "'v DTuple"
  shows "fst (crossPredicate_eval result leftRow rightRow) = (Return True :: ('e, bool) outcome)
   \<and> fst (crossPredicate_eval result leftRow rightRow)
       = (fst (crossPredicate_eval result leftRow' rightRow') :: ('e, bool) outcome)
   \<and> (length result = length leftRow + length rightRow \<longrightarrow>
        crossPredicate_prepareRow result leftRow rightRow
          = (Return (leftRow @ rightRow) :: ('e, 'v DTuple) outcome)
        \<and> onPredicate_prepareRow p result leftRow rightRow = Return (leftRow @ rightRow)
        \<and> length (leftRow @ rightRow) = length leftRow + length rightRow)"
  by (simp add: crossPredicate_eval_def crossPredicate_prepareRow_def onPredicate_prepareRow_def
        prepareRowConcat_def copy_def)

theorem cross_on_concat_witness:
  "crossPredicate_prepareRow [DNull, DNull, DNull] [DValue (1::int)] [DNull, DValue 3]
      = (Return [DValue 1, DNull, DValue 3] :: (string, int DTuple) outcome)
   \<and> onPredicate_prepareRow \<lparr>filter_fn = (\<lambda>row. Inr True :: string + bool), curRow = []\<rparr>
        [DNull, DNull, DNull] [DValue (1::int)] [DNull, DValue 3]
      = Return [DValue 1, DNull, DValue 3]"
  using cross_on_concat[where result = "[DNull, DNull, DNull]" and leftRow = "[DValue (1::int)]"
      and rightRow = "[DNull, DValue 3]" and leftRow' = "[]" and rightRow' = "[]"
      and p = "\<lparr>filter_fn = (\<lambda>row. Inr True :: string + bool), curRow = []\<rparr>"]
  by simp

text \<open>
  Claim C9. The cross predicate's \<open>encode\<close> returns the empty key, \<open>containsNull = false\<close>
  and no error, for every buffer, row and side.
\<close>

theorem crossPredicate_encode_noop:
  "crossPredicate_encode b row side = Return ([], False)"
  by (simp add: crossPredicate_encode_def)

section \<open>What \<open>eval\<close> leaves unchanged\<close>

text \<open>
  Claim C10. The equality predicate's \<open>eval\<close> leaves the result buffer as it was,
  whatever it returns, and what it returns does not depend on the buffer.
\<close>

theorem equalityPredicate_eval_frame:
  "snd (equalityPredicate_eval p result leftRow rightRow) = result
   \<and> fst (equalityPredicate_eval p result leftRow rightRow)
       = fst (equalityPredicate_eval p result' leftRow rightRow)"
  by (simp add: equalityPredicate_eval_def)

section \<open>Construction: resolving the USING names\<close>

lemma pick_loop_range:
  "pickUsingColumn_loop rn c cols j idx = idx \<or>
   (j \<le> pickUsingColumn_loop rn c cols j idx \<and>
    pickUsingColumn_loop rn c cols j idx < j + int (length cols))"
proof (induction cols arbitrary: j idx)
  case Nil
  then show ?case by simp
next
  case (Cons col cols)
  show ?case
    using Cons.IH[of "j + 1" idx] Cons.IH[of "j + 1" j] by auto
qed

lemma pick_loop_none:
  "\<forall>col\<in>set cols. \<not> visibleMatch rn c col \<Longrightarrow> pickUsingColumn_loop rn c cols j idx = idx"
  by (induction cols arbitrary: j idx) (auto simp: visibleMatch_def)

lemma pick_loop_some:
  "\<exists>col\<in>set cols. visibleMatch rn c col \<Longrightarrow>
   \<exists>k<length cols. pickUsingColumn_loop rn c cols j idx = j + int k \<and> visibleMatch rn c (cols ! k)"
proof (induction cols arbitrary: j idx)
  case Nil
  then show ?case by simp
next
  case (Cons col cols)
  show ?case
  proof (cases "\<exists>col\<in>set cols. visibleMatch rn c col")
    case True
    have "\<exists>k<length cols. pickUsingColumn_loop rn c cols (j + 1) i' = (j + 1) + int k \<and>
            visibleMatch rn c (cols ! k)" for i'
      using Cons.IH[OF True] by blast
    then obtain k where k: "k < length cols"
        "pickUsingColumn_loop rn c (col # cols) j idx = (j + 1) + int k"
        "visibleMatch rn c (cols ! k)"
      by (cases "hidden col"; cases "rn (Name col) = c") (simp; blast)+
    then show ?thesis by (intro exI[of _ "Suc k"]) simp
  next
    case False
    then have vm: "visibleMatch rn c col" using Cons.prems by auto
    have "pickUsingColumn_loop rn c (col # cols) j idx = j"
      using vm False by (simp add: visibleMatch_def pick_loop_none)
    then show ?thesis using vm by (intro exI[of _ 0]) simp
  qed
qed

lemma pickUsingColumn_Return:
  assumes "pickUsingColumn ext cols c cx = Return (idx, ty)"
  shows "0 \<le> idx \<and> idx < int (length cols) \<and> ty = Typ (cols ! nat idx)"
  using assms
  by (auto simp: pickUsingColumn_def Let_def at_def split: if_splits)

lemma pickUsingColumn_found:
  assumes "invalidColIdx ext < 0" "\<exists>col\<in>set cols. visibleMatch (ReNormalizeName ext) c col"
  shows "\<exists>k<length cols. pickUsingColumn ext cols c cx = Return (int k, Typ (cols ! k)) \<and>
           visibleMatch (ReNormalizeName ext) c (cols ! k)"
proof -
  obtain k where k: "k < length cols"
      "pickUsingColumn_loop (ReNormalizeName ext) c cols 0 (invalidColIdx ext) = int k"
      "visibleMatch (ReNormalizeName ext) c (cols ! k)"
    using pick_loop_some[OF assms(2), of 0 "invalidColIdx ext"] by auto
  then show ?thesis
    using assms(1) by (intro exI[of _ k]) (simp add: pickUsingColumn_def at_def)
qed

lemma pickUsingColumn_missing:
  assumes "\<forall>col\<in>set cols. \<not> visibleMatch (ReNormalizeName ext) c col"
  shows "pickUsingColumn ext cols c cx = Error (ColumnDoesNotExist c cx)"
  using pick_loop_none[OF assms] by (simp add: pickUsingColumn_def)

lemma pickUsingColumn_Return_visible:
  assumes "invalidColIdx ext < 0" "pickUsingColumn ext cols c cx = Return (idx, ty)"
  shows "visibleMatch (ReNormalizeName ext) c (cols ! nat idx)"
proof (cases "\<exists>col\<in>set cols. visibleMatch (ReNormalizeName ext) c col")
  case True
  then show ?thesis using pickUsingColumn_found[OF assms(1) True, of cx] assms(2) by auto
next
  case False
  then show ?thesis using pickUsingColumn_missing[of cols ext c cx] assms(2) by simp
qed

section \<open>Construction: the first loop\<close>

lemma using_loop_step_Return:
  assumes "using_loop ext lc rc ln rn (i # rest) st = Return st'"
  obtains leftIdx rightIdx fn where
    "pairResolved ext lc rc ln rn i leftIdx rightIdx fn"
    "i < length (cmpOps st)" "i < length (leftUsingIdx st)" "i < length (rightUsingIdx st)"
    "0 \<le> leftIdx" "nat leftIdx < length (usedLeft st)"
    "0 \<le> rightIdx" "nat rightIdx < length (usedRight st)"
    "using_loop ext lc rc ln rn rest (stepLocals st i leftIdx rightIdx fn (lc ! nat leftIdx)) = Return st'"
  using assms
  by (auto simp: pairResolved_def stepLocals_def at_def put_def
           split: option.splits outcome.splits prod.splits if_splits)

lemma using_loop_step_ok:
  assumes "pairResolved ext lc rc ln rn i leftIdx rightIdx fn"
    "i < length (cmpOps st)" "i < length (leftUsingIdx st)" "i < length (rightUsingIdx st)"
    "length (usedLeft st) = length lc" "length (usedRight st) = length rc"
  shows "using_loop ext lc rc ln rn (i # rest) st =
           using_loop ext lc rc ln rn rest (stepLocals st i leftIdx rightIdx fn (lc ! nat leftIdx))"
proof -
  from assms(1) obtain lt rt where
    l: "pickUsingColumn ext lc (Normalize ext (ln ! i)) ''left'' = Return (leftIdx, lt)" and
    r: "pickUsingColumn ext rc (Normalize ext (rn ! i)) ''right'' = Return (rightIdx, rt)" and
    f: "FindEqualComparisonFunction ext lt rt = Some fn" and
    i: "i < length ln" "i < length rn"
    unfolding pairResolved_def by blast
  note lb = pickUsingColumn_Return[OF l] and rb = pickUsingColumn_Return[OF r]
  show ?thesis
    using l r f i lb rb assms(2-6) by (simp add: at_def put_def stepLocals_def)
qed

lemma using_loop_lengths:
  assumes "using_loop ext lc rc ln rn is st = Return st'"
  shows "length (cmpOps st') = length (cmpOps st) \<and>
         length (leftUsingIdx st') = length (leftUsingIdx st) \<and>
         length (rightUsingIdx st') = length (rightUsingIdx st) \<and>
         length (usedLeft st') = length (usedLeft st) \<and>
         length (usedRight st') = length (usedRight st)"
  using assms
proof (induction "is" arbitrary: st)
  case Nil
  then show ?case by simp
next
  case (Cons i rest)
  from Cons.prems show ?case
  proof (rule using_loop_step_Return)
    fix leftIdx rightIdx fn
    assume "using_loop ext lc rc ln rn rest
              (stepLocals st i leftIdx rightIdx fn (lc ! nat leftIdx)) = Return st'"
    from Cons.IH[OF this] show ?thesis by (simp add: stepLocals_def)
  qed
qed

lemma using_loop_outside:
  assumes "using_loop ext lc rc ln rn is st = Return st'" "k \<notin> set is"
  shows "cmpOps st' ! k = cmpOps st ! k \<and>
         leftUsingIdx st' ! k = leftUsingIdx st ! k \<and>
         rightUsingIdx st' ! k = rightUsingIdx st ! k"
  using assms
proof (induction "is" arbitrary: st)
  case Nil
  then show ?case by simp
next
  case (Cons i rest)
  from Cons.prems(1) show ?case
  proof (rule using_loop_step_Return)
    fix leftIdx rightIdx fn
    assume "using_loop ext lc rc ln rn rest
              (stepLocals st i leftIdx rightIdx fn (lc ! nat leftIdx)) = Return st'"
    from Cons.IH[OF this] Cons.prems(2) show ?thesis by (simp add: stepLocals_def)
  qed
qed

lemma using_loop_Cons_Return:
  assumes "using_loop ext lc rc ln rn (i # rest) st = Return st'" "i \<notin> set rest"
  obtains fn where
    "pairResolved ext lc rc ln rn i (leftUsingIdx st' ! i) (rightUsingIdx st' ! i) fn"
    "cmpOps st' ! i = Some fn"
    "i < length (cmpOps st)" "i < length (leftUsingIdx st)" "i < length (rightUsingIdx st)"
    "0 \<le> leftUsingIdx st' ! i" "nat (leftUsingIdx st' ! i) < length (usedLeft st)"
    "0 \<le> rightUsingIdx st' ! i" "nat (rightUsingIdx st' ! i) < length (usedRight st)"
    "using_loop ext lc rc ln rn rest
       (stepLocals st i (leftUsingIdx st' ! i) (rightUsingIdx st' ! i) fn
          (lc ! nat (leftUsingIdx st' ! i))) = Return st'"
  using assms(1)
proof (rule using_loop_step_Return)
  fix leftIdx rightIdx fn
  assume a: "pairResolved ext lc rc ln rn i leftIdx rightIdx fn"
    "i < length (cmpOps st)" "i < length (leftUsingIdx st)" "i < length (rightUsingIdx st)"
    "0 \<le> leftIdx" "nat leftIdx < length (usedLeft st)"
    "0 \<le> rightIdx" "nat rightIdx < length (usedRight st)"
    and run: "using_loop ext lc rc ln rn rest
                (stepLocals st i leftIdx rightIdx fn (lc ! nat leftIdx)) = Return st'"
  from using_loop_outside[OF run assms(2)] a(2-4)
  have eqs: "cmpOps st' ! i = Some fn" "leftUsingIdx st' ! i = leftIdx"
    "rightUsingIdx st' ! i = rightIdx"
    by (simp_all add: stepLocals_def)
  show thesis
    by (rule that[of fn]) (use a run eqs in simp_all)
qed

lemma using_loop_resolved:
  assumes "using_loop ext lc rc ln rn is st = Return st'" "distinct is"
  shows "\<forall>i\<in>set is. \<exists>fn.
           pairResolved ext lc rc ln rn i (leftUsingIdx st' ! i) (rightUsingIdx st' ! i) fn \<and>
           cmpOps st' ! i = Some fn \<and> i < length (cmpOps st) \<and>
           i < length (leftUsingIdx st) \<and> i < length (rightUsingIdx st)"
  using assms
proof (induction "is" arbitrary: st)
  case Nil
  then show ?case by simp
next
  case (Cons i rest)
  have ni: "i \<notin> set rest" and dr: "distinct rest" using Cons.prems(2) by auto
  from Cons.prems(1) ni show ?case
  proof (rule using_loop_Cons_Return)
    fix fn
    assume h: "pairResolved ext lc rc ln rn i (leftUsingIdx st' ! i) (rightUsingIdx st' ! i) fn"
      "cmpOps st' ! i = Some fn"
      "i < length (cmpOps st)" "i < length (leftUsingIdx st)" "i < length (rightUsingIdx st)"
      and run: "using_loop ext lc rc ln rn rest
          (stepLocals st i (leftUsingIdx st' ! i) (rightUsingIdx st' ! i) fn
             (lc ! nat (leftUsingIdx st' ! i))) = Return st'"
    from Cons.IH[OF run dr] h show ?thesis by (auto simp: stepLocals_def)
  qed
qed

lemma using_loop_columns:
  assumes "using_loop ext lc rc ln rn is st = Return st'" "distinct is"
  shows "columns st' = columns st @ map (\<lambda>i. lc ! nat (leftUsingIdx st' ! i)) is"
  using assms
proof (induction "is" arbitrary: st)
  case Nil
  then show ?case by simp
next
  case (Cons i rest)
  have ni: "i \<notin> set rest" and dr: "distinct rest" using Cons.prems(2) by auto
  from Cons.prems(1) ni show ?case
  proof (rule using_loop_Cons_Return)
    fix fn
    assume run: "using_loop ext lc rc ln rn rest
          (stepLocals st i (leftUsingIdx st' ! i) (rightUsingIdx st' ! i) fn
             (lc ! nat (leftUsingIdx st' ! i))) = Return st'"
    from Cons.IH[OF run dr] show ?thesis by (simp add: stepLocals_def)
  qed
qed

lemma using_loop_usedLeft:
  assumes "using_loop ext lc rc ln rn is st = Return st'" "distinct is"
  shows "\<forall>c<length (usedLeft st).
           ((\<exists>i\<in>set is. leftUsingIdx st' ! i = int c) \<longrightarrow>
              (\<exists>i\<in>set is. usedLeft st' ! c = int i \<and> leftUsingIdx st' ! i = int c)) \<and>
           ((\<forall>i\<in>set is. leftUsingIdx st' ! i \<noteq> int c) \<longrightarrow> usedLeft st' ! c = usedLeft st ! c)"
  using assms
proof (induction "is" arbitrary: st)
  case Nil
  then show ?case by simp
next
  case (Cons i rest)
  have ni: "i \<notin> set rest" and dr: "distinct rest" using Cons.prems(2) by auto
  from Cons.prems(1) ni show ?case
  proof (rule using_loop_Cons_Return)
    fix fn
    let ?L = "leftUsingIdx st' ! i"
    let ?st1 = "stepLocals st i ?L (rightUsingIdx st' ! i) fn (lc ! nat ?L)"
    assume b: "0 \<le> ?L" "nat ?L < length (usedLeft st)"
      and run: "using_loop ext lc rc ln rn rest ?st1 = Return st'"
    have u1: "usedLeft ?st1 = (usedLeft st)[nat ?L := int i]" by (simp add: stepLocals_def)
    note IH = Cons.IH[OF run dr, unfolded u1 length_list_update]
    show ?thesis
    proof (intro allI impI conjI)
      fix c assume c: "c < length (usedLeft st)"
      assume ex: "\<exists>j\<in>set (i # rest). leftUsingIdx st' ! j = int c"
      show "\<exists>j\<in>set (i # rest). usedLeft st' ! c = int j \<and> leftUsingIdx st' ! j = int c"
      proof (cases "\<exists>j\<in>set rest. leftUsingIdx st' ! j = int c")
        case True
        then show ?thesis using IH c by auto
      next
        case False
        then have L: "?L = int c" using ex by auto
        from False IH c have "usedLeft st' ! c = (usedLeft st)[nat ?L := int i] ! c" by auto
        then show ?thesis using L c by simp
      qed
    next
      fix c assume c: "c < length (usedLeft st)"
      assume no: "\<forall>j\<in>set (i # rest). leftUsingIdx st' ! j \<noteq> int c"
      then have "usedLeft st' ! c = (usedLeft st)[nat ?L := int i] ! c" using IH c by auto
      moreover have "nat ?L \<noteq> c" using no b by auto
      ultimately show "usedLeft st' ! c = usedLeft st ! c" by simp
    qed
  qed
qed

lemma using_loop_usedRight:
  assumes "using_loop ext lc rc ln rn is st = Return st'" "distinct is"
  shows "\<forall>c<length (usedRight st).
           ((\<exists>i\<in>set is. rightUsingIdx st' ! i = int c) \<longrightarrow>
              (\<exists>i\<in>set is. usedRight st' ! c = int i \<and> rightUsingIdx st' ! i = int c)) \<and>
           ((\<forall>i\<in>set is. rightUsingIdx st' ! i \<noteq> int c) \<longrightarrow> usedRight st' ! c = usedRight st ! c)"
  using assms
proof (induction "is" arbitrary: st)
  case Nil
  then show ?case by simp
next
  case (Cons i rest)
  have ni: "i \<notin> set rest" and dr: "distinct rest" using Cons.prems(2) by auto
  from Cons.prems(1) ni show ?case
  proof (rule using_loop_Cons_Return)
    fix fn
    let ?R = "rightUsingIdx st' ! i"
    let ?st1 = "stepLocals st i (leftUsingIdx st' ! i) ?R fn (lc ! nat (leftUsingIdx st' ! i))"
    assume b: "0 \<le> ?R" "nat ?R < length (usedRight st)"
      and run: "using_loop ext lc rc ln rn rest ?st1 = Return st'"
    have u1: "usedRight ?st1 = (usedRight st)[nat ?R := int i]" by (simp add: stepLocals_def)
    note IH = Cons.IH[OF run dr, unfolded u1 length_list_update]
    show ?thesis
    proof (intro allI impI conjI)
      fix c assume c: "c < length (usedRight st)"
      assume ex: "\<exists>j\<in>set (i # rest). rightUsingIdx st' ! j = int c"
      show "\<exists>j\<in>set (i # rest). usedRight st' ! c = int j \<and> rightUsingIdx st' ! j = int c"
      proof (cases "\<exists>j\<in>set rest. rightUsingIdx st' ! j = int c")
        case True
        then show ?thesis using IH c by auto
      next
        case False
        then have R: "?R = int c" using ex by auto
        from False IH c have "usedRight st' ! c = (usedRight st)[nat ?R := int i] ! c" by auto
        then show ?thesis using R c by simp
      qed
    next
      fix c assume c: "c < length (usedRight st)"
      assume no: "\<forall>j\<in>set (i # rest). rightUsingIdx st' ! j \<noteq> int c"
      then have "usedRight st' ! c = (usedRight st)[nat ?R := int i] ! c" using IH c by auto
      moreover have "nat ?R \<noteq> c" using no b by auto
      ultimately show "usedRight st' ! c = usedRight st ! c" by simp
    qed
  qed
qed

lemma using_loop_init_facts:
  assumes run: "using_loop ext lc rc ln rn [0..<n] (initLocals ext lc rc n) = Return st"
  shows "length (leftUsingIdx st) = n" (is ?g1)
    and "length (rightUsingIdx st) = n" (is ?g2)
    and "length (cmpOps st) = n" (is ?g3)
    and "length (usedLeft st) = length lc" (is ?g4)
    and "length (usedRight st) = length rc" (is ?g5)
    and "\<forall>i<n. \<exists>fn. pairResolved ext lc rc ln rn i (leftUsingIdx st ! i) (rightUsingIdx st ! i) fn \<and>
                    cmpOps st ! i = Some fn" (is ?g6)
    and "columns st = map (\<lambda>j. lc ! nat j) (leftUsingIdx st)" (is ?g7)
    and "\<forall>c<length lc.
           (int c \<in> set (leftUsingIdx st) \<longrightarrow>
              (\<exists>i<n. usedLeft st ! c = int i \<and> leftUsingIdx st ! i = int c)) \<and>
           (int c \<notin> set (leftUsingIdx st) \<longrightarrow> usedLeft st ! c = invalidColIdx ext)" (is ?g8)
    and "\<forall>c<length rc.
           (int c \<in> set (rightUsingIdx st) \<longrightarrow>
              (\<exists>i<n. usedRight st ! c = int i \<and> rightUsingIdx st ! i = int c)) \<and>
           (int c \<notin> set (rightUsingIdx st) \<longrightarrow> usedRight st ! c = invalidColIdx ext)" (is ?g9)
proof -
  have d: "distinct [0..<n]" by simp
  note len = using_loop_lengths[OF run]
  show g1: ?g1 and g2: ?g2 and g3: ?g3 and g4: ?g4 and g5: ?g5
    using len by (simp_all add: initLocals_def)
  show ?g6 using using_loop_resolved[OF run d] by auto
  have "columns st = map (\<lambda>i. lc ! nat (leftUsingIdx st ! i)) [0..<n]"
    using using_loop_columns[OF run d] by (simp add: initLocals_def)
  also have "\<dots> = map (\<lambda>j. lc ! nat j) (map (\<lambda>i. leftUsingIdx st ! i) [0..<n])"
    by simp
  also have "map (\<lambda>i. leftUsingIdx st ! i) [0..<n] = leftUsingIdx st"
    using g1 by (metis map_nth)
  finally show ?g7 .
  have inL: "int c \<in> set (leftUsingIdx st) \<longleftrightarrow> (\<exists>i\<in>set [0..<n]. leftUsingIdx st ! i = int c)" for c
    using g1 by (auto simp: in_set_conv_nth)
  have inR: "int c \<in> set (rightUsingIdx st) \<longleftrightarrow> (\<exists>i\<in>set [0..<n]. rightUsingIdx st ! i = int c)" for c
    using g2 by (auto simp: in_set_conv_nth)
  have uL0: "usedLeft (initLocals ext lc rc n) ! c = invalidColIdx ext" if "c < length lc" for c
    using that by (simp add: initLocals_def)
  have uR0: "usedRight (initLocals ext lc rc n) ! c = invalidColIdx ext" if "c < length rc" for c
    using that by (simp add: initLocals_def)
  show ?g8
  proof (intro allI impI conjI)
    fix c assume c: "c < length lc"
    then have c': "c < length (usedLeft (initLocals ext lc rc n))" by (simp add: initLocals_def)
    note U = using_loop_usedLeft[OF run d, rule_format, OF c']
    { assume "int c \<in> set (leftUsingIdx st)"
      then show "\<exists>i<n. usedLeft st ! c = int i \<and> leftUsingIdx st ! i = int c"
        using U inL[of c] by auto }
    { assume "int c \<notin> set (leftUsingIdx st)"
      then show "usedLeft st ! c = invalidColIdx ext"
        using U inL[of c] uL0[OF c] by auto }
  qed
  show ?g9
  proof (intro allI impI conjI)
    fix c assume c: "c < length rc"
    then have c': "c < length (usedRight (initLocals ext lc rc n))" by (simp add: initLocals_def)
    note U = using_loop_usedRight[OF run d, rule_format, OF c']
    { assume "int c \<in> set (rightUsingIdx st)"
      then show "\<exists>i<n. usedRight st ! c = int i \<and> rightUsingIdx st ! i = int c"
        using U inR[of c] by auto }
    { assume "int c \<notin> set (rightUsingIdx st)"
      then show "usedRight st ! c = invalidColIdx ext"
        using U inR[of c] uR0[OF c] by auto }
  qed
qed

lemma pairResolved_range:
  assumes "pairResolved ext lc rc ln rn i leftIdx rightIdx fn"
  shows "0 \<le> leftIdx \<and> leftIdx < int (length lc) \<and> 0 \<le> rightIdx \<and> rightIdx < int (length rc)"
  using assms unfolding pairResolved_def by (auto dest: pickUsingColumn_Return)

section \<open>Construction: the remaining columns and the aliases\<close>

lemma rest_loop_spec:
  assumes "\<forall>i\<in>set is. i < length used \<and> i < length cols" "distinct is"
  shows "\<exists>used'. rest_loop invalid cols is (restIndices, used, columns') =
            Return (restIndices @ map int (filter (\<lambda>i. used ! i = invalid) is), used',
                    columns' @ map (\<lambda>i. cols ! i) (filter (\<lambda>i. used ! i = invalid) is)) \<and>
          length used' = length used \<and>
          (\<forall>c. c \<notin> set (filter (\<lambda>i. used ! i = invalid) is) \<longrightarrow> used' ! c = used ! c) \<and>
          (\<forall>k<length (filter (\<lambda>i. used ! i = invalid) is).
              used' ! (filter (\<lambda>i. used ! i = invalid) is ! k) = int (length columns' + k))"
  using assms
proof (induction "is" arbitrary: restIndices used columns')
  case Nil
  then show ?case by simp
next
  case (Cons i rest)
  have i: "i < length used" "i < length cols" and ni: "i \<notin> set rest" and dr: "distinct rest"
    using Cons.prems by auto
  show ?case
  proof (cases "used ! i = invalid")
    case False
    have step: "rest_loop invalid cols (i # rest) (restIndices, used, columns') =
                  rest_loop invalid cols rest (restIndices, used, columns')"
      using False i by (simp add: at_def)
    from Cons.IH[of used restIndices columns'] Cons.prems dr
    obtain used' where u:
      "rest_loop invalid cols rest (restIndices, used, columns') =
            Return (restIndices @ map int (filter (\<lambda>i. used ! i = invalid) rest), used',
                    columns' @ map (\<lambda>i. cols ! i) (filter (\<lambda>i. used ! i = invalid) rest))"
      "length used' = length used"
      "\<forall>c. c \<notin> set (filter (\<lambda>i. used ! i = invalid) rest) \<longrightarrow> used' ! c = used ! c"
      "\<forall>k<length (filter (\<lambda>i. used ! i = invalid) rest).
              used' ! (filter (\<lambda>i. used ! i = invalid) rest ! k) = int (length columns' + k)"
      by auto
    show ?thesis
      unfolding step using u False by (intro exI[of _ used']) simp
  next
    case True
    let ?used1 = "used[i := int (length columns')]"
    let ?F = "filter (\<lambda>j. used ! j = invalid) rest"
    have same: "?used1 ! j = used ! j" if "j \<in> set rest" for j
      using ni that by (metis nth_list_update_neq)
    have F: "filter (\<lambda>j. ?used1 ! j = invalid) rest = ?F"
      by (rule filter_cong) (simp_all add: same)
    have step: "rest_loop invalid cols (i # rest) (restIndices, used, columns') =
                  rest_loop invalid cols rest (restIndices @ [int i], ?used1, columns' @ [cols ! i])"
      using True i by (simp add: at_def put_def)
    from Cons.IH[of ?used1 "restIndices @ [int i]" "columns' @ [cols ! i]"] Cons.prems dr
    obtain used' where u:
      "rest_loop invalid cols rest (restIndices @ [int i], ?used1, columns' @ [cols ! i]) =
            Return ((restIndices @ [int i]) @ map int ?F, used',
                    (columns' @ [cols ! i]) @ map (\<lambda>i. cols ! i) ?F)"
      "length used' = length ?used1"
      "\<forall>c. c \<notin> set ?F \<longrightarrow> used' ! c = ?used1 ! c"
      "\<forall>k<length ?F. used' ! (?F ! k) = int (length (columns' @ [cols ! i]) + k)"
      unfolding F by auto
    have iF: "i \<notin> set ?F" using ni by simp
    have head: "used' ! i = int (length columns')" using u(3) iF i by simp
    have pos: "\<forall>k<length (i # ?F). used' ! ((i # ?F) ! k) = int (length columns' + k)"
    proof (intro allI impI)
      fix k assume "k < length (i # ?F)"
      then show "used' ! ((i # ?F) ! k) = int (length columns' + k)"
        using head u(4) by (cases k) auto
    qed
    have out: "\<forall>c. c \<notin> set (i # ?F) \<longrightarrow> used' ! c = used ! c"
      using u(3) by auto
    show ?thesis
      unfolding step using u(1,2) True pos out by (intro exI[of _ used']) simp
  qed
qed

lemma rest_filter_eq:
  assumes "invalid < 0" "length used = m"
    and "\<forall>c<m. (int c \<in> set idxs \<longrightarrow> (\<exists>i::nat. used ! c = int i)) \<and>
                 (int c \<notin> set idxs \<longrightarrow> used ! c = invalid)"
  shows "filter (\<lambda>i. used ! i = invalid) [0..<m] = filter (\<lambda>c. int c \<notin> set idxs) [0..<m]"
  by (rule filter_cong) (use assms in auto)

lemma remap_range_Some:
  "remap_range used r = Some r' \<Longrightarrow>
     (\<forall>c\<in>set r. 0 \<le> c \<and> c < int (length used)) \<and> r' = map (\<lambda>c. used ! nat c) r"
  by (induction r arbitrary: r') (auto simp: at_def split: option.splits if_splits)

lemma remap_aliases_Some:
  assumes "remap_aliases used al acc = Some acc'" "distinct (map fst al)"
  shows "(\<forall>(a, r)\<in>set al. \<forall>c\<in>set r. 0 \<le> c \<and> c < int (length used)) \<and>
         (\<forall>a. DAList.lookup acc' a =
                (case map_of al a of Some r \<Rightarrow> Some (map (\<lambda>c. used ! nat c) r)
                 | None \<Rightarrow> DAList.lookup acc a))"
  using assms
proof (induction al arbitrary: acc)
  case Nil
  then show ?case by simp
next
  case (Cons ar al)
  obtain a r where ar: "ar = (a, r)" by (cases ar)
  from Cons.prems(1) obtain r' where r': "remap_range used r = Some r'"
    and run: "remap_aliases used al (DAList.update a r' acc) = Some acc'"
    unfolding ar by (auto split: option.splits)
  have d: "distinct (map fst al)" and na: "a \<notin> fst ` set al"
    using Cons.prems(2) unfolding ar by auto
  note IH = Cons.IH[OF run d]
  have r'': "(\<forall>c\<in>set r. 0 \<le> c \<and> c < int (length used))" "r' = map (\<lambda>c. used ! nat c) r"
    using remap_range_Some[OF r'] by simp_all
  have none: "map_of al a = None" using na by (simp add: map_of_eq_None_iff)
  show ?case
  proof (intro conjI allI)
    show "\<forall>(a, r)\<in>set (ar # al). \<forall>c\<in>set r. 0 \<le> c \<and> c < int (length used)"
      using IH r''(1) unfolding ar by auto
  next
    fix b
    show "DAList.lookup acc' b =
            (case map_of (ar # al) b of Some r \<Rightarrow> Some (map (\<lambda>c. used ! nat c) r)
             | None \<Rightarrow> DAList.lookup acc b)"
    proof (cases "b = a")
      case True
      then show ?thesis using IH none r''(2) unfolding ar by (simp add: lookup_update)
    next
      case False
      then have "DAList.lookup (DAList.update a r' acc) b = DAList.lookup acc b"
        by (simp add: lookup_update)
      then show ?thesis using IH False unfolding ar by (simp split: option.splits)
    qed
  qed
qed

section \<open>Construction: what a successful call returns\<close>

lemma run_Return_unfold:
  assumes "makeEqualityPredicate_run ext ctx left right ln rn = Return (pred, info, usedL, usedR)"
  obtains st leftRest columns1 rightRest aliases1 where
    "length ln = length rn"
    "using_loop ext (sourceColumns left) (sourceColumns right) ln rn [0..<length ln]
       (initLocals ext (sourceColumns left) (sourceColumns right) (length ln)) = Return st"
    "rest_loop (invalidColIdx ext) (sourceColumns left) [0..<length (sourceColumns left)]
       ([], usedLeft st, columns st) = Return (leftRest, usedL, columns1)"
    "rest_loop (invalidColIdx ext) (sourceColumns right) [0..<length (sourceColumns right)]
       ([], usedRight st, columns1) = Return (rightRest, usedR, sourceColumns info)"
    "remap_aliases usedL (DAList.impl_of (sourceAliases left)) DAList.empty = Some aliases1"
    "remap_aliases usedR (DAList.impl_of (sourceAliases right)) aliases1 = Some (sourceAliases info)"
    "pred = \<lparr>leftColNames = ln, rightColNames = rn, usingCmp = cmpOps st, evalCtx = ctx,
             leftUsingIndices = leftUsingIdx st, rightUsingIndices = rightUsingIdx st,
             leftRestIndices = leftRest, rightRestIndices = rightRest\<rparr>"
  using assms unfolding makeEqualityPredicate_run_def initLocals_def
  by (auto split: if_splits outcome.splits option.splits prod.splits)

lemma run_Return_facts:
  fixes left right :: "('ty, 'a) dataSourceInfo" and pred :: "('c, 'v, 'e) equalityPredicate"
  assumes inv: "invalidColIdx ext < 0"
    and run: "makeEqualityPredicate_run ext ctx left right ln rn = Return (pred, info, usedL, usedR)"
  defines "lc \<equiv> sourceColumns left" and "rc \<equiv> sourceColumns right" and "n \<equiv> length ln"
  defines "FL \<equiv> filter (\<lambda>c. int c \<notin> set (leftUsingIndices pred)) [0..<length lc]"
  defines "FR \<equiv> filter (\<lambda>c. int c \<notin> set (rightUsingIndices pred)) [0..<length rc]"
  shows "length rn = n" (is ?a1)
    and "length (leftUsingIndices pred) = n" (is ?a2)
    and "length (rightUsingIndices pred) = n" (is ?a3)
    and "length (usingCmp pred) = n" (is ?a4)
    and "leftColNames pred = ln \<and> rightColNames pred = rn \<and> evalCtx pred = ctx" (is ?a5)
    and "\<forall>i<n. \<exists>fn. pairResolved ext lc rc ln rn i (leftUsingIndices pred ! i)
                       (rightUsingIndices pred ! i) fn \<and> usingCmp pred ! i = Some fn" (is ?b)
    and "leftRestIndices pred = map int FL" (is ?c1)
    and "rightRestIndices pred = map int FR" (is ?c2)
    and "sourceColumns info = map (\<lambda>j. lc ! nat j) (leftUsingIndices pred) @
           map (\<lambda>c. lc ! c) FL @ map (\<lambda>c. rc ! c) FR" (is ?d)
    and "length usedL = length lc" (is ?e1)
    and "length usedR = length rc" (is ?e2)
    and "\<forall>c<length lc. int c \<in> set (leftUsingIndices pred) \<longrightarrow>
           (\<exists>i<n. usedL ! c = int i \<and> leftUsingIndices pred ! i = int c)" (is ?f1)
    and "\<forall>k<length FL. usedL ! (FL ! k) = int (n + k)" (is ?g1)
    and "\<forall>c<length rc. int c \<in> set (rightUsingIndices pred) \<longrightarrow>
           (\<exists>i<n. usedR ! c = int i \<and> rightUsingIndices pred ! i = int c)" (is ?f2)
    and "\<forall>k<length FR. usedR ! (FR ! k) = int (n + length FL + k)" (is ?g2)
    and "\<forall>(a, r)\<in>set (DAList.impl_of (sourceAliases left)). \<forall>c\<in>set r. 0 \<le> c \<and> c < int (length lc)" (is ?h1)
    and "\<forall>(a, r)\<in>set (DAList.impl_of (sourceAliases right)). \<forall>c\<in>set r. 0 \<le> c \<and> c < int (length rc)" (is ?h2)
    and "\<forall>a. DAList.lookup (sourceAliases info) a =
           (case DAList.lookup (sourceAliases right) a of
              Some r \<Rightarrow> Some (map (\<lambda>c. usedR ! nat c) r)
            | None \<Rightarrow> (case DAList.lookup (sourceAliases left) a of
                         Some r \<Rightarrow> Some (map (\<lambda>c. usedL ! nat c) r)
                       | None \<Rightarrow> None))" (is ?h3)
proof -
  from run obtain st leftRest columns1 rightRest aliases1 where
    len: "length ln = length rn" and
    ul: "using_loop ext lc rc ln rn [0..<n] (initLocals ext lc rc n) = Return st" and
    rl: "rest_loop (invalidColIdx ext) lc [0..<length lc] ([], usedLeft st, columns st) =
           Return (leftRest, usedL, columns1)" and
    rr: "rest_loop (invalidColIdx ext) rc [0..<length rc] ([], usedRight st, columns1) =
           Return (rightRest, usedR, sourceColumns info)" and
    al: "remap_aliases usedL (DAList.impl_of (sourceAliases left)) DAList.empty = Some aliases1" and
    ar: "remap_aliases usedR (DAList.impl_of (sourceAliases right)) aliases1 =
           Some (sourceAliases info)" and
    pred: "pred = \<lparr>leftColNames = ln, rightColNames = rn, usingCmp = cmpOps st, evalCtx = ctx,
             leftUsingIndices = leftUsingIdx st, rightUsingIndices = rightUsingIdx st,
             leftRestIndices = leftRest, rightRestIndices = rightRest\<rparr>"
    unfolding lc_def rc_def n_def by (rule run_Return_unfold)
  note U = using_loop_init_facts[OF ul]
  have lui: "leftUsingIndices pred = leftUsingIdx st" and rui: "rightUsingIndices pred = rightUsingIdx st"
    and lri: "leftRestIndices pred = leftRest" and rri: "rightRestIndices pred = rightRest"
    and cmp: "usingCmp pred = cmpOps st"
    by (simp_all add: pred)
  show ?a1 using len by (simp add: n_def)
  show ?a2 ?a3 ?a4 using U(1-3) by (simp_all add: pred)
  show ?a5 by (simp add: pred)
  show ?b using U(6) by (simp add: pred)
  \<comment> \<open>the left rest loop\<close>
  have FLeq: "filter (\<lambda>i. usedLeft st ! i = invalidColIdx ext) [0..<length lc] = FL"
    unfolding FL_def lui
    by (rule rest_filter_eq[OF inv U(4)]) (use U(8) in blast)
  from rest_loop_spec[of "[0..<length lc]" "usedLeft st" lc "invalidColIdx ext" "[]" "columns st"]
  obtain usedL' where L:
    "rest_loop (invalidColIdx ext) lc [0..<length lc] ([], usedLeft st, columns st) =
       Return (map int FL, usedL', columns st @ map (\<lambda>i. lc ! i) FL)"
    "length usedL' = length (usedLeft st)"
    "\<forall>c. c \<notin> set FL \<longrightarrow> usedL' ! c = usedLeft st ! c"
    "\<forall>k<length FL. usedL' ! (FL ! k) = int (length (columns st) + k)"
    unfolding FLeq using U(4) by auto
  from L(1) rl have l1: "leftRest = map int FL" and l2: "usedL' = usedL"
    and l3: "columns1 = columns st @ map (\<lambda>i. lc ! i) FL"
    by simp_all
  have lcol: "length (columns st) = n" using U(7) U(1) by simp
  show ?c1 using l1 lri by simp
  show ?e1 using L(2) l2 U(4) by simp
  show ?g1 using L(4) l2 lcol by simp
  show ?f1
  proof (intro allI impI)
    fix c assume c: "c < length lc" and m: "int c \<in> set (leftUsingIndices pred)"
    then have "c \<notin> set FL" by (simp add: FL_def)
    then have "usedL ! c = usedLeft st ! c" using L(3) l2 by simp
    then show "\<exists>i<n. usedL ! c = int i \<and> leftUsingIndices pred ! i = int c"
      using U(8) c m unfolding lui by auto
  qed
  \<comment> \<open>the right rest loop\<close>
  have FReq: "filter (\<lambda>i. usedRight st ! i = invalidColIdx ext) [0..<length rc] = FR"
    unfolding FR_def rui
    by (rule rest_filter_eq[OF inv U(5)]) (use U(9) in blast)
  from rest_loop_spec[of "[0..<length rc]" "usedRight st" rc "invalidColIdx ext" "[]" columns1]
  obtain usedR' where R:
    "rest_loop (invalidColIdx ext) rc [0..<length rc] ([], usedRight st, columns1) =
       Return (map int FR, usedR', columns1 @ map (\<lambda>i. rc ! i) FR)"
    "length usedR' = length (usedRight st)"
    "\<forall>c. c \<notin> set FR \<longrightarrow> usedR' ! c = usedRight st ! c"
    "\<forall>k<length FR. usedR' ! (FR ! k) = int (length columns1 + k)"
    unfolding FReq using U(5) by auto
  from R(1) rr have r1: "rightRest = map int FR" and r2: "usedR' = usedR"
    and r3: "sourceColumns info = columns1 @ map (\<lambda>i. rc ! i) FR"
    by simp_all
  show ?c2 using r1 rri by simp
  show ?e2 using R(2) r2 U(5) by simp
  show ?g2 using R(4) r2 l3 lcol by simp
  show ?d using r3 l3 U(7) lui by simp
  show ?f2
  proof (intro allI impI)
    fix c assume c: "c < length rc" and m: "int c \<in> set (rightUsingIndices pred)"
    then have "c \<notin> set FR" by (simp add: FR_def)
    then have "usedR ! c = usedRight st ! c" using R(3) r2 by simp
    then show "\<exists>i<n. usedR ! c = int i \<and> rightUsingIndices pred ! i = int c"
      using U(9) c m unfolding rui by auto
  qed
  \<comment> \<open>the aliases\<close>
  note A1 = remap_aliases_Some[OF al impl_of_distinct]
  note A2 = remap_aliases_Some[OF ar impl_of_distinct]
  show ?h1 using A1 \<open>?e1\<close> by simp
  show ?h2 using A2 \<open>?e2\<close> by simp
  show ?h3
  proof
    fix a
    show "DAList.lookup (sourceAliases info) a =
           (case DAList.lookup (sourceAliases right) a of
              Some r \<Rightarrow> Some (map (\<lambda>c. usedR ! nat c) r)
            | None \<Rightarrow> (case DAList.lookup (sourceAliases left) a of
                         Some r \<Rightarrow> Some (map (\<lambda>c. usedL ! nat c) r)
                       | None \<Rightarrow> None))"
      using A1[THEN conjunct2, rule_format, of a] A2[THEN conjunct2, rule_format, of a]
      by (simp add: DAList.lookup.rep_eq DAList.empty.rep_eq split: option.splits)
  qed
qed

lemma makeEqualityPredicate_Return_run:
  assumes "makeEqualityPredicate ext ctx left right ln rn = Return (pred, info)"
  obtains usedL usedR where
    "makeEqualityPredicate_run ext ctx left right ln rn = Return (pred, info, usedL, usedR)"
  using assms unfolding makeEqualityPredicate_def
  by (auto split: outcome.splits prod.splits)

lemma run_Return_resolved:
  fixes left right :: "('ty, 'a) dataSourceInfo" and pred :: "('c, 'v, 'e) equalityPredicate"
  assumes run: "makeEqualityPredicate_run ext ctx left right ln rn = Return (pred, info, usedL, usedR)"
  shows "length ln = length rn \<and> length (usingCmp pred) = length ln \<and>
         (\<forall>i<length ln. \<exists>fn.
            pairResolved ext (sourceColumns left) (sourceColumns right) ln rn i
              (leftUsingIndices pred ! i) (rightUsingIndices pred ! i) fn \<and>
            usingCmp pred ! i = Some fn)"
proof -
  from run obtain st leftRest rightRest where
    len: "length ln = length rn" and
    ul: "using_loop ext (sourceColumns left) (sourceColumns right) ln rn [0..<length ln]
           (initLocals ext (sourceColumns left) (sourceColumns right) (length ln)) = Return st" and
    pred: "pred = \<lparr>leftColNames = ln, rightColNames = rn, usingCmp = cmpOps st, evalCtx = ctx,
             leftUsingIndices = leftUsingIdx st, rightUsingIndices = rightUsingIdx st,
             leftRestIndices = leftRest, rightRestIndices = rightRest\<rparr>"
    by (rule run_Return_unfold)
  note U = using_loop_init_facts[OF ul]
  show ?thesis using len U(3) U(6) by (simp add: pred)
qed

lemmas sample_defs = sampleExt_def sampleLeft_def sampleRight_def colA_def colB_def colC_def
  sampleJoinPred_def sampleJoinInfo_def

lemma impl_of_sample [simp]:
  "DAList.impl_of (DAList.update k v al) = AList.update k v (DAList.impl_of al)"
  "DAList.impl_of DAList.empty = []"
  by (simp_all add: DAList.update.rep_eq DAList.empty.rep_eq)

lemma sample_run:
  "makeEqualityPredicate_run sampleExt () sampleLeft sampleRight [''a''] [''a''] =
     Return (sampleJoinPred, sampleJoinInfo, [1, 0], [0, 2])"
  by (simp add: makeEqualityPredicate_run_def sample_defs pickUsingColumn_def at_def put_def)

lemma sample_make:
  "makeEqualityPredicate sampleExt () sampleLeft sampleRight [''a''] [''a''] =
     Return (sampleJoinPred, sampleJoinInfo)"
  by (simp add: makeEqualityPredicate_def sample_run)

text \<open>
  Claim C3. When \<open>invalidColIdx\<close> is negative and the construction succeeds, the
  predicate has one resolved left position per USING pair, each the position of a
  visible left column of the pair's name; the rest indices of each side are the
  positions of that side not used by USING, in ascending order; and the merged schema
  is the left descriptors of the USING pairs in pair order, then the left rest columns,
  then the right rest columns, so that its length is the number of pairs plus the two
  numbers of rest columns.
\<close>

theorem makeEqualityPredicate_schema:
  fixes left right :: "('ty, 'a) dataSourceInfo" and pred :: "('c, 'v, 'e) equalityPredicate"
    and ext :: "('ty, 'c, 'v, 'e) externals"
  assumes inv: "invalidColIdx ext < 0"
    and ok: "makeEqualityPredicate ext ctx left right ln rn = Return (pred, info)"
  shows "length (leftUsingIndices pred) = length ln
       \<and> (\<forall>i<length ln.
             0 \<le> leftUsingIndices pred ! i \<and>
             leftUsingIndices pred ! i < int (length (sourceColumns left)) \<and>
             visibleMatch (ReNormalizeName ext) (Normalize ext (ln ! i))
               (sourceColumns left ! nat (leftUsingIndices pred ! i)))
       \<and> leftRestIndices pred =
           map int (filter (\<lambda>c. int c \<notin> set (leftUsingIndices pred))
                      [0..<length (sourceColumns left)])
       \<and> rightRestIndices pred =
           map int (filter (\<lambda>c. int c \<notin> set (rightUsingIndices pred))
                      [0..<length (sourceColumns right)])
       \<and> sourceColumns info =
           map (\<lambda>j. sourceColumns left ! nat j) (leftUsingIndices pred) @
           map (\<lambda>j. sourceColumns left ! nat j) (leftRestIndices pred) @
           map (\<lambda>j. sourceColumns right ! nat j) (rightRestIndices pred)
       \<and> length (sourceColumns info) =
           length ln + length (leftRestIndices pred) + length (rightRestIndices pred)"
proof -
  from ok obtain usedL usedR where
    run: "makeEqualityPredicate_run ext ctx left right ln rn = Return (pred, info, usedL, usedR)"
    by (rule makeEqualityPredicate_Return_run)
  note F = run_Return_facts[OF inv run]
  have vis: "0 \<le> leftUsingIndices pred ! i \<and>
             leftUsingIndices pred ! i < int (length (sourceColumns left)) \<and>
             visibleMatch (ReNormalizeName ext) (Normalize ext (ln ! i))
               (sourceColumns left ! nat (leftUsingIndices pred ! i))" if "i < length ln" for i
  proof -
    from F(6) that obtain fn lt where
      pk: "pickUsingColumn ext (sourceColumns left) (Normalize ext (ln ! i)) ''left'' =
         Return (leftUsingIndices pred ! i, lt)"
      unfolding pairResolved_def by blast
    show ?thesis
      using pickUsingColumn_Return[OF pk] pickUsingColumn_Return_visible[OF inv pk] by simp
  qed
  have cols: "sourceColumns info =
           map (\<lambda>j. sourceColumns left ! nat j) (leftUsingIndices pred) @
           map (\<lambda>j. sourceColumns left ! nat j) (leftRestIndices pred) @
           map (\<lambda>j. sourceColumns right ! nat j) (rightRestIndices pred)"
    unfolding F(9) F(7) F(8) by (simp add: comp_def)
  have len: "length (sourceColumns info) =
           length ln + length (leftRestIndices pred) + length (rightRestIndices pred)"
    unfolding cols using F(2) by simp
  have visAll: "\<forall>i<length ln.
             0 \<le> leftUsingIndices pred ! i \<and>
             leftUsingIndices pred ! i < int (length (sourceColumns left)) \<and>
             visibleMatch (ReNormalizeName ext) (Normalize ext (ln ! i))
               (sourceColumns left ! nat (leftUsingIndices pred ! i))"
    using vis by blast
  show ?thesis
    by (rule conjI[OF F(2) conjI[OF visAll conjI[OF F(7) conjI[OF F(8) conjI[OF cols len]]]]])
qed

theorem makeEqualityPredicate_schema_witness:
  "makeEqualityPredicate sampleExt () sampleLeft sampleRight [''a''] [''a''] =
     Return (sampleJoinPred, sampleJoinInfo)
   \<and> sourceColumns sampleJoinInfo = [colA, colB, colC]
   \<and> length (sourceColumns sampleJoinInfo) = 1 + 1 + 1"
proof -
  have inv: "invalidColIdx sampleExt < 0" by (simp add: sampleExt_def)
  from makeEqualityPredicate_schema[OF inv sample_make]
  have "sourceColumns sampleJoinInfo =
           map (\<lambda>j. sourceColumns sampleLeft ! nat j) (leftUsingIndices sampleJoinPred) @
           map (\<lambda>j. sourceColumns sampleLeft ! nat j) (leftRestIndices sampleJoinPred) @
           map (\<lambda>j. sourceColumns sampleRight ! nat j) (rightRestIndices sampleJoinPred)"
    and "length (sourceColumns sampleJoinInfo) =
           length [''a''] + length (leftRestIndices sampleJoinPred) +
           length (rightRestIndices sampleJoinPred)"
    by blast+
  then show ?thesis
    using sample_make by (simp add: sampleJoinPred_def sampleLeft_def sampleRight_def)
qed

lemma run_positions:
  fixes left right :: "('ty, 'a) dataSourceInfo" and pred :: "('c, 'v, 'e) equalityPredicate"
    and ext :: "('ty, 'c, 'v, 'e) externals"
  assumes inv: "invalidColIdx ext < 0"
    and run: "makeEqualityPredicate_run ext ctx left right ln rn = Return (pred, info, usedL, usedR)"
  shows "makeEqualityPredicate ext ctx left right ln rn = Return (pred, info)
       \<and> length usedL = length (sourceColumns left)
       \<and> length usedR = length (sourceColumns right)
       \<and> (\<forall>c<length (sourceColumns left).
             0 \<le> usedL ! c \<and> usedL ! c < int (length (sourceColumns info)))
       \<and> (\<forall>c<length (sourceColumns right).
             0 \<le> usedR ! c \<and> usedR ! c < int (length (sourceColumns info)))
       \<and> (\<forall>c<length (sourceColumns left). int c \<in> set (leftUsingIndices pred) \<longrightarrow>
             usedL ! c < int (length ln) \<and> leftUsingIndices pred ! nat (usedL ! c) = int c)
       \<and> (\<forall>k<length (leftRestIndices pred).
             usedL ! nat (leftRestIndices pred ! k) = int (length ln + k))
       \<and> (\<forall>c<length (sourceColumns right). int c \<in> set (rightUsingIndices pred) \<longrightarrow>
             usedR ! c < int (length ln) \<and> rightUsingIndices pred ! nat (usedR ! c) = int c)
       \<and> (\<forall>k<length (rightRestIndices pred).
             usedR ! nat (rightRestIndices pred ! k) =
               int (length ln + length (leftRestIndices pred) + k))
       \<and> (\<forall>a r. DAList.lookup (sourceAliases info) a = Some r \<longrightarrow>
             (\<forall>x\<in>set r. 0 \<le> x \<and> x < int (length (sourceColumns info))))
       \<and> (\<forall>a. DAList.lookup (sourceAliases info) a =
             (case DAList.lookup (sourceAliases right) a of
                Some r \<Rightarrow> Some (map (\<lambda>c. usedR ! nat c) r)
              | None \<Rightarrow> (case DAList.lookup (sourceAliases left) a of
                           Some r \<Rightarrow> Some (map (\<lambda>c. usedL ! nat c) r)
                         | None \<Rightarrow> None)))"
proof -
  let ?lc = "sourceColumns left" and ?rc = "sourceColumns right"
  let ?FL = "filter (\<lambda>c. int c \<notin> set (leftUsingIndices pred)) [0..<length ?lc]"
  let ?FR = "filter (\<lambda>c. int c \<notin> set (rightUsingIndices pred)) [0..<length ?rc]"
  let ?n = "length ln"
  note F = run_Return_facts[OF inv run]
  have width: "length (sourceColumns info) = ?n + length ?FL + length ?FR"
    unfolding F(9) using F(2) by simp
  have c1: "makeEqualityPredicate ext ctx left right ln rn = Return (pred, info)"
    using run by (simp add: makeEqualityPredicate_def)
  have usingL: "usedL ! c < int ?n \<and> leftUsingIndices pred ! nat (usedL ! c) = int c \<and> 0 \<le> usedL ! c"
    if "c < length ?lc" "int c \<in> set (leftUsingIndices pred)" for c
    using F(12) that by auto
  have usingR: "usedR ! c < int ?n \<and> rightUsingIndices pred ! nat (usedR ! c) = int c \<and> 0 \<le> usedR ! c"
    if "c < length ?rc" "int c \<in> set (rightUsingIndices pred)" for c
    using F(14) that by auto
  have restL: "usedL ! nat (leftRestIndices pred ! k) = int (?n + k)"
    if "k < length (leftRestIndices pred)" for k
    using F(13) that unfolding F(7) by simp
  have restR: "usedR ! nat (rightRestIndices pred ! k) = int (?n + length (leftRestIndices pred) + k)"
    if "k < length (rightRestIndices pred)" for k
    using F(15) that unfolding F(7) F(8) by simp
  have boundL: "0 \<le> usedL ! c \<and> usedL ! c < int (length (sourceColumns info))"
    if c: "c < length ?lc" for c
  proof (cases "int c \<in> set (leftUsingIndices pred)")
    case True
    then show ?thesis using usingL[OF c True] width by simp
  next
    case False
    then have "c \<in> set ?FL" using c by simp
    then obtain k where k: "k < length ?FL" "?FL ! k = c" unfolding in_set_conv_nth by blast
    then have "usedL ! c = int (?n + k)" using F(13) by auto
    then show ?thesis using k(1) width by simp
  qed
  have boundR: "0 \<le> usedR ! c \<and> usedR ! c < int (length (sourceColumns info))"
    if c: "c < length ?rc" for c
  proof (cases "int c \<in> set (rightUsingIndices pred)")
    case True
    then show ?thesis using usingR[OF c True] width by simp
  next
    case False
    then have "c \<in> set ?FR" using c by simp
    then obtain k where k: "k < length ?FR" "?FR ! k = c" unfolding in_set_conv_nth by blast
    then have "usedR ! c = int (?n + length ?FL + k)" using F(15) by auto
    then show ?thesis using k(1) width by simp
  qed
  have inL: "\<forall>x\<in>set r. 0 \<le> x \<and> x < int (length ?lc)"
    if "DAList.lookup (sourceAliases left) a = Some r" for a r
    using F(16) that by (auto simp: DAList.lookup.rep_eq dest: map_of_SomeD)
  have inR: "\<forall>x\<in>set r. 0 \<le> x \<and> x < int (length ?rc)"
    if "DAList.lookup (sourceAliases right) a = Some r" for a r
    using F(17) that by (auto simp: DAList.lookup.rep_eq dest: map_of_SomeD)
  have aliasBound: "\<forall>x\<in>set r. 0 \<le> x \<and> x < int (length (sourceColumns info))"
    if look: "DAList.lookup (sourceAliases info) a = Some r" for a r
  proof (cases "DAList.lookup (sourceAliases right) a")
    case (Some rr)
    then have r: "r = map (\<lambda>c. usedR ! nat c) rr" using F(18) look by simp
    show ?thesis
    proof
      fix x assume "x \<in> set r"
      then obtain c where c: "c \<in> set rr" "x = usedR ! nat c" unfolding r by auto
      then have "nat c < length ?rc" using inR[OF Some] by auto
      then show "0 \<le> x \<and> x < int (length (sourceColumns info))" using boundR c(2) by simp
    qed
  next
    case None
    then obtain rl where rl: "DAList.lookup (sourceAliases left) a = Some rl"
        "r = map (\<lambda>c. usedL ! nat c) rl"
      using F(18) look by (auto split: option.splits)
    show ?thesis
    proof
      fix x assume "x \<in> set r"
      then obtain c where c: "c \<in> set rl" "x = usedL ! nat c" unfolding rl(2) by auto
      then have "nat c < length ?lc" using inL[OF rl(1)] by auto
      then show "0 \<le> x \<and> x < int (length (sourceColumns info))" using boundL c(2) by simp
    qed
  qed
  show ?thesis
    using c1 F(10) F(11) boundL boundR usingL usingR restL restR aliasBound F(18)
    by (intro conjI allI impI) blast+
qed

text \<open>
  Claim C7. When \<open>invalidColIdx\<close> is negative and the construction succeeds, its
  final \<open>usedLeft\<close> and \<open>usedRight\<close> give every original column position of either side
  one position within the merged schema: a USING column the slot of a pair that uses
  it, the \<open>k\<close>-th rest column of the left the position after the pairs, the \<open>k\<close>-th rest
  column of the right the position after the pairs and the left rest. Every index of
  every alias of the merged map lies within the merged schema, and an alias maps to the
  right side's remapped list when the right side has it, else to the left side's.
\<close>

theorem makeEqualityPredicate_positions:
  fixes left right :: "('ty, 'a) dataSourceInfo" and pred :: "('c, 'v, 'e) equalityPredicate"
    and ext :: "('ty, 'c, 'v, 'e) externals"
  assumes inv: "invalidColIdx ext < 0"
    and ok: "makeEqualityPredicate ext ctx left right ln rn = Return (pred, info)"
  shows "\<exists>usedL usedR.
         makeEqualityPredicate_run ext ctx left right ln rn = Return (pred, info, usedL, usedR)
       \<and> length usedL = length (sourceColumns left)
       \<and> length usedR = length (sourceColumns right)
       \<and> (\<forall>c<length (sourceColumns left).
             0 \<le> usedL ! c \<and> usedL ! c < int (length (sourceColumns info)))
       \<and> (\<forall>c<length (sourceColumns right).
             0 \<le> usedR ! c \<and> usedR ! c < int (length (sourceColumns info)))
       \<and> (\<forall>c<length (sourceColumns left). int c \<in> set (leftUsingIndices pred) \<longrightarrow>
             usedL ! c < int (length ln) \<and> leftUsingIndices pred ! nat (usedL ! c) = int c)
       \<and> (\<forall>k<length (leftRestIndices pred).
             usedL ! nat (leftRestIndices pred ! k) = int (length ln + k))
       \<and> (\<forall>c<length (sourceColumns right). int c \<in> set (rightUsingIndices pred) \<longrightarrow>
             usedR ! c < int (length ln) \<and> rightUsingIndices pred ! nat (usedR ! c) = int c)
       \<and> (\<forall>k<length (rightRestIndices pred).
             usedR ! nat (rightRestIndices pred ! k) =
               int (length ln + length (leftRestIndices pred) + k))
       \<and> (\<forall>a r. DAList.lookup (sourceAliases info) a = Some r \<longrightarrow>
             (\<forall>x\<in>set r. 0 \<le> x \<and> x < int (length (sourceColumns info))))
       \<and> (\<forall>a. DAList.lookup (sourceAliases info) a =
             (case DAList.lookup (sourceAliases right) a of
                Some r \<Rightarrow> Some (map (\<lambda>c. usedR ! nat c) r)
              | None \<Rightarrow> (case DAList.lookup (sourceAliases left) a of
                           Some r \<Rightarrow> Some (map (\<lambda>c. usedL ! nat c) r)
                         | None \<Rightarrow> None)))"
proof -
  from ok obtain usedL usedR where
    run: "makeEqualityPredicate_run ext ctx left right ln rn = Return (pred, info, usedL, usedR)"
    by (rule makeEqualityPredicate_Return_run)
  show ?thesis
    by (rule exI[of _ usedL], rule exI[of _ usedR])
       (rule conjI[OF run run_positions[OF inv run, THEN conjunct2]])
qed

theorem makeEqualityPredicate_positions_witness:
  "makeEqualityPredicate sampleExt () sampleLeft sampleRight [''a''] [''a''] =
     Return (sampleJoinPred, sampleJoinInfo)
   \<and> DAList.lookup (sourceAliases sampleJoinInfo) ''l'' = Some [1, 0]
   \<and> DAList.lookup (sourceAliases sampleJoinInfo) ''r'' = Some [0, 2]
   \<and> DAList.lookup (sourceAliases sampleJoinInfo) ''t'' = Some [2]"
proof -
  have inv: "invalidColIdx sampleExt < 0" by (simp add: sampleExt_def)
  from makeEqualityPredicate_positions[OF inv sample_make]
  obtain usedL usedR where
    run: "makeEqualityPredicate_run sampleExt () sampleLeft sampleRight [''a''] [''a''] =
            Return (sampleJoinPred, sampleJoinInfo, usedL, usedR)"
    and look: "\<forall>a. DAList.lookup (sourceAliases sampleJoinInfo) a =
             (case DAList.lookup (sourceAliases sampleRight) a of
                Some r \<Rightarrow> Some (map (\<lambda>c. usedR ! nat c) r)
              | None \<Rightarrow> (case DAList.lookup (sourceAliases sampleLeft) a of
                           Some r \<Rightarrow> Some (map (\<lambda>c. usedL ! nat c) r)
                         | None \<Rightarrow> None))"
    by blast
  from run have used: "usedL = [1, 0]" "usedR = [0, 2]"
    by (simp_all add: sample_run)
  from look have "DAList.lookup (sourceAliases sampleJoinInfo) ''l'' = Some [1, 0]"
    and "DAList.lookup (sourceAliases sampleJoinInfo) ''r'' = Some [0, 2]"
    and "DAList.lookup (sourceAliases sampleJoinInfo) ''t'' = Some [2]"
    unfolding used by (simp_all add: sampleLeft_def sampleRight_def lookup_update)
  then show ?thesis using sample_make by simp
qed

section \<open>Construction: faults\<close>

lemma seenNames_loop_None:
  "seenNames_loop norm names seen = None \<longleftrightarrow>
     distinct (map norm names) \<and> set (map norm names) \<inter> seen = {}"
  by (induction names arbitrary: seen) (auto simp: Let_def)

lemma seenNames_loop_Some:
  "seenNames_loop norm names seen = Some err \<Longrightarrow> \<exists>c\<in>set (map norm names). err = ColumnMoreThanOnce c"
  by (induction names arbitrary: seen) (auto simp: Let_def split: if_splits)

lemma using_loop_prefix_ok:
  assumes "\<forall>i\<in>set xs. i < n \<and> (\<exists>li ri fn. pairResolved ext lc rc ln rn i li ri fn)"
    and "localsSized st n (length lc) (length rc)"
  shows "\<exists>st'. localsSized st' n (length lc) (length rc) \<and>
               using_loop ext lc rc ln rn (xs @ ys) st = using_loop ext lc rc ln rn ys st'"
  using assms
proof (induction xs arbitrary: st)
  case Nil
  then show ?case by auto
next
  case (Cons i xs)
  from Cons.prems(1) obtain li ri fn where r: "pairResolved ext lc rc ln rn i li ri fn" and i: "i < n"
    by auto
  let ?st1 = "stepLocals st i li ri fn (lc ! nat li)"
  have step: "using_loop ext lc rc ln rn (i # xs @ ys) st = using_loop ext lc rc ln rn (xs @ ys) ?st1"
    using Cons.prems(2) i by (intro using_loop_step_ok[OF r]) (simp_all add: localsSized_def)
  have sz: "localsSized ?st1 n (length lc) (length rc)"
    using Cons.prems(2) by (simp add: localsSized_def stepLocals_def)
  from Cons.IH[OF _ sz] Cons.prems(1) show ?case unfolding append_Cons step by auto
qed

lemma using_loop_fault_left:
  assumes "i < length ln" "i < length rn"
    and "\<forall>col\<in>set lc. \<not> visibleMatch (ReNormalizeName ext) (Normalize ext (ln ! i)) col"
  shows "using_loop ext lc rc ln rn (i # rest) st =
           Error (ColumnDoesNotExist (Normalize ext (ln ! i)) ''left'')"
  using assms(1,2) pickUsingColumn_missing[OF assms(3), of "''left''"]
  by (simp add: at_def)

lemma using_loop_fault_right:
  assumes "i < length ln" "i < length rn"
    and "pickUsingColumn ext lc (Normalize ext (ln ! i)) ''left'' = Return (li, lt)"
    and "\<forall>col\<in>set rc. \<not> visibleMatch (ReNormalizeName ext) (Normalize ext (rn ! i)) col"
    and "localsSized st n (length lc) (length rc)"
  shows "using_loop ext lc rc ln rn (i # rest) st =
           Error (ColumnDoesNotExist (Normalize ext (rn ! i)) ''right'')"
  using assms(1,2,3,5) pickUsingColumn_missing[OF assms(4), of "''right''"]
    pickUsingColumn_Return[OF assms(3)]
  by (simp add: at_def put_def localsSized_def)

lemma using_loop_fault_types:
  assumes "i < length ln" "i < length rn" "i < n"
    and "pickUsingColumn ext lc (Normalize ext (ln ! i)) ''left'' = Return (li, lt)"
    and "pickUsingColumn ext rc (Normalize ext (rn ! i)) ''right'' = Return (ri, rt)"
    and "FindEqualComparisonFunction ext lt rt = None"
    and "localsSized st n (length lc) (length rc)"
  shows "using_loop ext lc rc ln rn (i # rest) st =
           Error (TypesCannotBeMatched lt (Normalize ext (ln ! i)) rt (Normalize ext (rn ! i)))"
  using assms(1-7) pickUsingColumn_Return[OF assms(4)] pickUsingColumn_Return[OF assms(5)]
  by (simp add: at_def put_def localsSized_def)

lemma run_using_Error:
  assumes "length ln = length rn"
    and "length ln \<le> length (sourceColumns left) + length (sourceColumns right)"
    and "using_loop ext (sourceColumns left) (sourceColumns right) ln rn [0..<length ln]
           (initLocals ext (sourceColumns left) (sourceColumns right) (length ln)) = Error err"
  shows "makeEqualityPredicate ext ctx left right ln rn = Error err"
  using assms
  by (simp add: makeEqualityPredicate_def makeEqualityPredicate_run_def initLocals_def)

lemma first_fault:
  assumes "k < length ln"
    and "\<forall>i<k. \<exists>li ri fn. pairResolved ext lc rc ln rn i li ri fn"
  shows "\<exists>st. localsSized st (length ln) (length lc) (length rc) \<and>
           using_loop ext lc rc ln rn [0..<length ln] (initLocals ext lc rc (length ln)) =
           using_loop ext lc rc ln rn (k # [Suc k..<length ln]) st"
proof -
  have sz: "localsSized (initLocals ext lc rc (length ln)) (length ln) (length lc) (length rc)"
    by (simp add: localsSized_def initLocals_def)
  have pre: "\<forall>i\<in>set [0..<k]. i < length ln \<and> (\<exists>li ri fn. pairResolved ext lc rc ln rn i li ri fn)"
    using assms by auto
  from using_loop_prefix_ok[OF pre sz, of "k # [Suc k..<length ln]"] assms(1)
  show ?thesis by (simp add: upt_split[of k "length ln"])
qed

text \<open>
  Claim C5, as the code has it. No predicate is returned when a fault is present:
  \<^item> name lists of different lengths make \<open>makeEqualityPredicate\<close> panic (it returns no
    error);
  \<^item> a name whose normal form repeats makes \<open>makeUsingPredicate\<close> return the error
    "appears more than once";
  \<^item> when the lists have the same length and no more names than the two sources have
    columns, the first pair \<open>k\<close> that does not resolve makes \<open>makeEqualityPredicate\<close>
    return the error of that pair: no visible left column of the name, no visible
    right column of the name, or no equality comparison for the two types;
  \<^item> a returned predicate has equally long name lists, and every pair resolved to the
    positions and the comparison that the predicate holds; one returned by
    \<open>makeUsingPredicate\<close> has no repeated normalized name.
\<close>

theorem construction_all_or_nothing:
  fixes left right :: "('ty, 'a) dataSourceInfo" and ext :: "('ty, 'c, 'v, 'e) externals"
  defines "lc \<equiv> sourceColumns left" and "rc \<equiv> sourceColumns right"
  shows
    "(length ln \<noteq> length rn \<longrightarrow>
        makeEqualityPredicate ext ctx left right ln rn =
          Panic (ColumnsLengthMismatch (length ln) (length rn)))
   \<and> (\<not> distinct (map (Normalize ext) names) \<longrightarrow>
        (\<exists>c. makeUsingPredicate ext ctx left right names = Error (ColumnMoreThanOnce c)))
   \<and> (\<forall>k<length ln.
        length ln = length rn \<and> length ln \<le> length lc + length rc \<and>
        (\<forall>i<k. \<exists>li ri fn. pairResolved ext lc rc ln rn i li ri fn) \<longrightarrow>
          ((\<forall>col\<in>set lc. \<not> visibleMatch (ReNormalizeName ext) (Normalize ext (ln ! k)) col) \<longrightarrow>
             makeEqualityPredicate ext ctx left right ln rn =
               Error (ColumnDoesNotExist (Normalize ext (ln ! k)) ''left''))
        \<and> (\<forall>li lt.
             pickUsingColumn ext lc (Normalize ext (ln ! k)) ''left'' = Return (li, lt) \<and>
             (\<forall>col\<in>set rc. \<not> visibleMatch (ReNormalizeName ext) (Normalize ext (rn ! k)) col) \<longrightarrow>
             makeEqualityPredicate ext ctx left right ln rn =
               Error (ColumnDoesNotExist (Normalize ext (rn ! k)) ''right''))
        \<and> (\<forall>li lt ri rt.
             pickUsingColumn ext lc (Normalize ext (ln ! k)) ''left'' = Return (li, lt) \<and>
             pickUsingColumn ext rc (Normalize ext (rn ! k)) ''right'' = Return (ri, rt) \<and>
             FindEqualComparisonFunction ext lt rt = None \<longrightarrow>
             makeEqualityPredicate ext ctx left right ln rn =
               Error (TypesCannotBeMatched lt (Normalize ext (ln ! k)) rt (Normalize ext (rn ! k)))))
   \<and> (\<forall>pred info.
        makeEqualityPredicate ext ctx left right ln rn = Return (pred, info) \<longrightarrow>
          length ln = length rn \<and> length (usingCmp pred) = length ln \<and>
          (\<forall>i<length ln. \<exists>fn.
             pairResolved ext lc rc ln rn i (leftUsingIndices pred ! i)
               (rightUsingIndices pred ! i) fn \<and>
             usingCmp pred ! i = Some fn))
   \<and> (\<forall>pred info.
        makeUsingPredicate ext ctx left right names = Return (pred, info) \<longrightarrow>
          distinct (map (Normalize ext) names))"
proof -
  have c1: "length ln \<noteq> length rn \<longrightarrow>
        makeEqualityPredicate ext ctx left right ln rn =
          Panic (ColumnsLengthMismatch (length ln) (length rn))"
    by (simp add: makeEqualityPredicate_def makeEqualityPredicate_run_def)
  have c2: "\<not> distinct (map (Normalize ext) names) \<longrightarrow>
        (\<exists>c. makeUsingPredicate ext ctx left right names = Error (ColumnMoreThanOnce c))"
  proof
    assume nd: "\<not> distinct (map (Normalize ext) names)"
    then have "seenNames_loop (Normalize ext) names {} \<noteq> (None :: 'ty usingError option)"
      by (simp add: seenNames_loop_None)
    then obtain err :: "'ty usingError" where e: "seenNames_loop (Normalize ext) names {} = Some err"
      by blast
    from seenNames_loop_Some[OF e] obtain c where "err = ColumnMoreThanOnce c" by blast
    then show "\<exists>c. makeUsingPredicate ext ctx left right names = Error (ColumnMoreThanOnce c)"
      using e by (auto simp: makeUsingPredicate_def)
  qed
  have c3: "((\<forall>col\<in>set lc. \<not> visibleMatch (ReNormalizeName ext) (Normalize ext (ln ! k)) col) \<longrightarrow>
             makeEqualityPredicate ext ctx left right ln rn =
               Error (ColumnDoesNotExist (Normalize ext (ln ! k)) ''left''))
        \<and> (\<forall>li lt.
             pickUsingColumn ext lc (Normalize ext (ln ! k)) ''left'' = Return (li, lt) \<and>
             (\<forall>col\<in>set rc. \<not> visibleMatch (ReNormalizeName ext) (Normalize ext (rn ! k)) col) \<longrightarrow>
             makeEqualityPredicate ext ctx left right ln rn =
               Error (ColumnDoesNotExist (Normalize ext (rn ! k)) ''right''))
        \<and> (\<forall>li lt ri rt.
             pickUsingColumn ext lc (Normalize ext (ln ! k)) ''left'' = Return (li, lt) \<and>
             pickUsingColumn ext rc (Normalize ext (rn ! k)) ''right'' = Return (ri, rt) \<and>
             FindEqualComparisonFunction ext lt rt = None \<longrightarrow>
             makeEqualityPredicate ext ctx left right ln rn =
               Error (TypesCannotBeMatched lt (Normalize ext (ln ! k)) rt (Normalize ext (rn ! k))))"
    if k: "k < length ln" and len: "length ln = length rn"
      and cap: "length ln \<le> length lc + length rc"
      and pre: "\<forall>i<k. \<exists>li ri fn. pairResolved ext lc rc ln rn i li ri fn" for k
  proof -
    from first_fault[OF k pre] obtain st where
      sz: "localsSized st (length ln) (length lc) (length rc)" and
      eq: "using_loop ext lc rc ln rn [0..<length ln] (initLocals ext lc rc (length ln)) =
             using_loop ext lc rc ln rn (k # [Suc k..<length ln]) st"
      by blast
    have k': "k < length rn" using k len by simp
    have up: "makeEqualityPredicate ext ctx left right ln rn = Error err"
      if "using_loop ext lc rc ln rn (k # [Suc k..<length ln]) st = Error err" for err
      using run_using_Error[OF len cap[unfolded lc_def rc_def], of ext err ctx] that eq
      unfolding lc_def rc_def by simp
    show ?thesis
    proof (intro conjI allI impI)
      assume "\<forall>col\<in>set lc. \<not> visibleMatch (ReNormalizeName ext) (Normalize ext (ln ! k)) col"
      from using_loop_fault_left[OF k k' this]
      show "makeEqualityPredicate ext ctx left right ln rn =
               Error (ColumnDoesNotExist (Normalize ext (ln ! k)) ''left'')"
        by (rule up)
    next
      fix li lt
      assume "pickUsingColumn ext lc (Normalize ext (ln ! k)) ''left'' = Return (li, lt) \<and>
             (\<forall>col\<in>set rc. \<not> visibleMatch (ReNormalizeName ext) (Normalize ext (rn ! k)) col)"
      then have a: "pickUsingColumn ext lc (Normalize ext (ln ! k)) ''left'' = Return (li, lt)"
        and b: "\<forall>col\<in>set rc. \<not> visibleMatch (ReNormalizeName ext) (Normalize ext (rn ! k)) col"
        by simp_all
      from using_loop_fault_right[OF k k' a b sz]
      show "makeEqualityPredicate ext ctx left right ln rn =
               Error (ColumnDoesNotExist (Normalize ext (rn ! k)) ''right'')"
        by (rule up)
    next
      fix li lt ri rt
      assume "pickUsingColumn ext lc (Normalize ext (ln ! k)) ''left'' = Return (li, lt) \<and>
             pickUsingColumn ext rc (Normalize ext (rn ! k)) ''right'' = Return (ri, rt) \<and>
             FindEqualComparisonFunction ext lt rt = None"
      then have a: "pickUsingColumn ext lc (Normalize ext (ln ! k)) ''left'' = Return (li, lt)"
        and b: "pickUsingColumn ext rc (Normalize ext (rn ! k)) ''right'' = Return (ri, rt)"
        and c: "FindEqualComparisonFunction ext lt rt = None"
        by simp_all
      from using_loop_fault_types[OF k k' k a b c sz]
      show "makeEqualityPredicate ext ctx left right ln rn =
               Error (TypesCannotBeMatched lt (Normalize ext (ln ! k)) rt (Normalize ext (rn ! k)))"
        by (rule up)
    qed
  qed
  have c4: "length ln = length rn \<and> length (usingCmp pred) = length ln \<and>
          (\<forall>i<length ln. \<exists>fn.
             pairResolved ext lc rc ln rn i (leftUsingIndices pred ! i)
               (rightUsingIndices pred ! i) fn \<and>
             usingCmp pred ! i = Some fn)"
    if ok: "makeEqualityPredicate ext ctx left right ln rn = Return (pred, info)" for pred info
  proof -
    from ok obtain usedL usedR where
      run: "makeEqualityPredicate_run ext ctx left right ln rn = Return (pred, info, usedL, usedR)"
      by (rule makeEqualityPredicate_Return_run)
    show ?thesis using run_Return_resolved[OF run] unfolding lc_def rc_def .
  qed
  have c5: "distinct (map (Normalize ext) names)"
    if ok: "makeUsingPredicate ext ctx left right names = Return (pred, info)" for pred info
  proof -
    have "seenNames_loop (Normalize ext) names {} = (None :: 'ty usingError option)"
      using ok by (auto simp: makeUsingPredicate_def split: option.splits)
    then show ?thesis by (simp add: seenNames_loop_None)
  qed
  show ?thesis
    using c1 c2 c3 c4 c5 by (intro conjI allI impI) blast+
qed

theorem construction_all_or_nothing_witness:
  "makeEqualityPredicate sampleExt () sampleLeft sampleRight [''a''] [] =
     Panic (ColumnsLengthMismatch 1 0)
   \<and> (\<exists>c. makeUsingPredicate sampleExt () sampleLeft sampleRight [''a'', ''a''] =
           Error (ColumnMoreThanOnce c))
   \<and> makeEqualityPredicate sampleExt () sampleLeft sampleRight [''a'', ''x''] [''a'', ''x''] =
       Error (ColumnDoesNotExist ''x'' ''left'')
   \<and> makeEqualityPredicate sampleExt () sampleLeft sampleRight [''b''] [''b''] =
       Error (ColumnDoesNotExist ''b'' ''right'')
   \<and> makeEqualityPredicate sampleExt () sampleLeft sampleRight [''b''] [''a''] =
       Error (TypesCannotBeMatched 1 ''b'' 0 ''a'')
   \<and> usingCmp sampleJoinPred ! 0 = Some sampleEq
   \<and> distinct (map (Normalize sampleExt) [''a''])"
proof -
  note T = construction_all_or_nothing[where ext = sampleExt and ctx = "()"
      and left = sampleLeft and right = sampleRight]
  note ev = sample_defs pickUsingColumn_def at_def pairResolved_def visibleMatch_def All_less_Suc
  have 1: "makeEqualityPredicate sampleExt () sampleLeft sampleRight [''a''] [] =
     Panic (ColumnsLengthMismatch 1 0)"
    using T[where ln = "[''a'']" and rn = "[]" and names = "[]"] by simp
  have 2: "\<exists>c. makeUsingPredicate sampleExt () sampleLeft sampleRight [''a'', ''a''] =
           Error (ColumnMoreThanOnce c)"
    using T[where ln = "[]" and rn = "[]" and names = "[''a'', ''a'']"]
    by (simp add: sampleExt_def)
  have 3: "makeEqualityPredicate sampleExt () sampleLeft sampleRight [''a'', ''x''] [''a'', ''x''] =
       Error (ColumnDoesNotExist ''x'' ''left'')"
    using T[where ln = "[''a'', ''x'']" and rn = "[''a'', ''x'']" and names = "[]"]
    by (simp add: ev)
  have 4: "makeEqualityPredicate sampleExt () sampleLeft sampleRight [''b''] [''b''] =
       Error (ColumnDoesNotExist ''b'' ''right'')"
    using T[where ln = "[''b'']" and rn = "[''b'']" and names = "[]"]
    by (simp add: ev)
  have 5: "makeEqualityPredicate sampleExt () sampleLeft sampleRight [''b''] [''a''] =
       Error (TypesCannotBeMatched 1 ''b'' 0 ''a'')"
    using T[where ln = "[''b'']" and rn = "[''a'']" and names = "[]"]
    by (simp add: ev)
  have 6: "usingCmp sampleJoinPred ! 0 = Some sampleEq"
    using T[where ln = "[''a'']" and rn = "[''a'']" and names = "[]"] sample_make
    by (simp add: sampleJoinPred_def)
  have um: "makeUsingPredicate sampleExt () sampleLeft sampleRight [''a''] =
              Return (sampleJoinPred, sampleJoinInfo)"
    using sample_make by (simp add: makeUsingPredicate_def)
  have 7: "distinct (map (Normalize sampleExt) [''a''])"
    using T[where ln = "[]" and rn = "[]" and names = "[''a'']"] um by blast
  show ?thesis using 1 2 3 4 5 6 7 by (intro conjI)
qed

text \<open>
  The claim as stated fails for name lists of different lengths: the construction
  panics and returns no error.
\<close>

theorem construction_length_mismatch_counterexample:
  "makeEqualityPredicate sampleExt () sampleLeft sampleRight [''a''] [] =
     Panic (ColumnsLengthMismatch 1 0)
   \<and> \<not> (\<exists>err. makeEqualityPredicate sampleExt () sampleLeft sampleRight [''a''] [] = Error err)"
  by (simp add: makeEqualityPredicate_def makeEqualityPredicate_run_def)

text \<open>
  With more USING names than the two sources have columns, \<open>make\<close> of \<open>columns\<close> gets
  a negative capacity and panics before any name is looked up.
\<close>

lemma makeUsingPredicate_more_names_than_columns:
  "makeUsingPredicate sampleExt () sampleLeft sampleRight [''a'', ''v'', ''w'', ''x'', ''y''] =
     Panic MakesliceCapOutOfRange"
  by (simp add: makeUsingPredicate_def makeEqualityPredicate_def makeEqualityPredicate_run_def
        sample_defs)

end
